theory Spec2Isabelle
  imports Main "HOL-Library.Word"
begin

section \<open>The decentr broadcaster: sequence tracking and the single retry\<close>

text \<open>
  A shallow embedding of \<^verbatim>\<open>src/blockchain.go\<close> (package broadcaster). The
  broadcaster keeps a transaction factory whose sequence number it advances after every
  accepted transaction and corrects from the node's error text before its one retry.
\<close>

type_synonym u64 = "64 word"
type_synonym u32 = "32 word"
type_synonym bytes = "8 word list"

subsection \<open>Errors\<close>

text \<open>
  Go error values. \<open>ErrTxInMempoolCache\<close> is the package's sentinel
  (\<^verbatim>\<open>errors.New("tx is already in mempool cache")\<close>); \<open>ErrInvalidSequence\<close>
  is \<^verbatim>\<open>errInvalidSequence\<close>, the private sentinel of the earlier revision of the
  file (\<^verbatim>\<open>src/unnamed/part_000\<close>); \<open>Ext t\<close> is an error
  handed back by a collaborator (SDK, keyring, node) whose \<^verbatim>\<open>Error()\<close> text is
  \<open>t\<close>; \<open>Wrapf p e\<close> is \<^verbatim>\<open>fmt.Errorf(p + ": %w", e)\<close> and \<open>Errorf p t\<close> is
  \<^verbatim>\<open>fmt.Errorf(p + ": %s", t)\<close>.
\<close>

datatype error =
    ErrTxInMempoolCache
  | ErrInvalidSequence
  | Ext string
  | Wrapf string error
  | Errorf string string

fun Error :: "error \<Rightarrow> string" where
  "Error ErrTxInMempoolCache = ''tx is already in mempool cache''"
| "Error ErrInvalidSequence = ''invalid sequence''"
| "Error (Ext t) = t"
| "Error (Wrapf p e) = p @ '': '' @ Error e"
| "Error (Errorf p t) = p @ '': '' @ t"

text \<open>\<^verbatim>\<open>errors.Is\<close>: equality with the target somewhere along the \<^verbatim>\<open>%w\<close> chain.\<close>

fun errors_Is :: "error \<Rightarrow> error \<Rightarrow> bool" where
  "errors_Is (Wrapf p e) target = (Wrapf p e = target \<or> errors_Is e target)"
| "errors_Is e target = (e = target)"

subsection \<open>The sequence-mismatch pattern\<close>

text \<open>
  \<^verbatim>\<open>regexp.MustCompile(`.+account sequence mismatch, expected (\d+), got \d+:.+`)\<close>.
  The pattern only uses single characters, the classes \<^verbatim>\<open>.\<close> (any character but
  a newline) and \<^verbatim>\<open>\d\<close> (an ASCII digit), the repetition \<^verbatim>\<open>+\<close> of a class and
  one capture group, so a pattern is a list of such items. Strings are byte lists; the
  literals, the digits and the newline are ASCII, so matching bytes and matching runes
  select the same submatch.
\<close>

datatype cls = Chr char | Dot | Digit

definition is_digit :: "char \<Rightarrow> bool" where
  "is_digit c = (c \<in> set ''0123456789'')"

fun cls_matches :: "cls \<Rightarrow> char \<Rightarrow> bool" where
  "cls_matches (Chr c) x = (x = c)"
| "cls_matches Dot x = (x \<noteq> CHR 0x0A)"
| "cls_matches Digit x = is_digit x"

datatype item = One cls | Plus cls | Star cls | GroupOpen | GroupClose

definition lits :: "string \<Rightarrow> item list" where
  "lits w = map (\<lambda>c. One (Chr c)) w"

definition accountSequenceMismatchErrorRegExp :: "item list" where
  "accountSequenceMismatchErrorRegExp =
     [Plus Dot] @ lits ''account sequence mismatch, expected '' @
     [GroupOpen, Plus Digit, GroupClose] @ lits '', got '' @
     [Plus Digit] @ lits '':'' @ [Plus Dot]"

text \<open>
  Go's regexp package returns the leftmost match and, among those, the one a
  backtracking engine finds first. \<open>rmatch\<close> is that engine for one start position:
  it matches the items against a prefix of the text, a greedy repetition trying the
  longer alternative first, and returns the unmatched rest and the captured groups.
  The third argument is the stack of texts at which the open groups began.
\<close>

fun weight :: "item \<Rightarrow> nat" where
  "weight (Plus c) = 3"
| "weight i = 1"

function rmatch :: "item list \<Rightarrow> string \<Rightarrow> string list \<Rightarrow> string list \<Rightarrow> (string \<times> string list) option" where
  "rmatch [] s st gs = Some (s, gs)"
| "rmatch (One c # r) [] st gs = None"
| "rmatch (One c # r) (x # s) st gs = (if cls_matches c x then rmatch r s st gs else None)"
| "rmatch (Star c # r) [] st gs = rmatch r [] st gs"
| "rmatch (Star c # r) (x # s) st gs =
     (if cls_matches c x
      then (case rmatch (Star c # r) s st gs of
              Some m \<Rightarrow> Some m
            | None \<Rightarrow> rmatch r (x # s) st gs)
      else rmatch r (x # s) st gs)"
| "rmatch (Plus c # r) s st gs = rmatch (One c # Star c # r) s st gs"
| "rmatch (GroupOpen # r) s st gs = rmatch r s (s # st) gs"
| "rmatch (GroupClose # r) s [] gs = None"
| "rmatch (GroupClose # r) s (b # st) gs =
     rmatch r s st (gs @ [take (length b - length s) b])"
  by pat_completeness auto
termination
  by (relation "measures [\<lambda>(r, s, st, gs). sum_list (map weight r), \<lambda>(r, s, st, gs). length s]")
     auto

text \<open>
  \<^verbatim>\<open>FindStringSubmatch\<close>: the match at the leftmost start that has one, as the
  list of the whole match and the groups; the empty list (Go's nil) when there is none.
\<close>

fun FindStringSubmatch :: "item list \<Rightarrow> string \<Rightarrow> string list" where
  "FindStringSubmatch re [] =
     (case rmatch re [] [] [] of
        Some (rest, gs) \<Rightarrow> [] # gs
      | None \<Rightarrow> [])"
| "FindStringSubmatch re (x # s) =
     (case rmatch re (x # s) [] [] of
        Some (rest, gs) \<Rightarrow> take (length (x # s) - length rest) (x # s) # gs
      | None \<Rightarrow> FindStringSubmatch re s)"

text \<open>
  \<^verbatim>\<open>strconv.ParseUint(s, 10, 64)\<close>: the value and whether an error is returned.
  A character that is not a decimal digit, or the empty string, gives 0 and a syntax
  error; a value that does not fit 64 bits gives the largest value and a range error.
\<close>

definition digit_val :: "char \<Rightarrow> u64" where
  "digit_val c = of_nat (of_char c - 48)"

fun parse_digits :: "string \<Rightarrow> u64 \<Rightarrow> u64 \<times> bool" where
  "parse_digits [] n = (n, False)"
| "parse_digits (c # cs) n =
     (if \<not> is_digit c then (0, True)
      else if n \<ge> 1844674407370955162 then (- 1, True)
      else let n10 = n * 10; n1 = n10 + digit_val c
           in if n1 < n10 then (- 1, True) else parse_digits cs n1)"

definition ParseUint :: "string \<Rightarrow> u64 \<times> bool" where
  "ParseUint s = (if s = [] then (0, True) else parse_digits s 0)"

text \<open>\<^verbatim>\<open>getNextSequence\<close>: the parse error is dropped, as in the source.\<close>

definition getNextSequence :: "string \<Rightarrow> u64" where
  "getNextSequence m =
     (let s = FindStringSubmatch accountSequenceMismatchErrorRegExp m
      in if length s \<noteq> 2 then 0
         else let (seq, _) = ParseUint (s ! 1) in seq)"

subsection \<open>The SDK values the broadcaster handles\<close>

text \<open>
  \<^verbatim>\<open>tx.Factory\<close> is a value type: every \<^verbatim>\<open>With...\<close> method returns an updated copy.
  The fields are named after their getters. \<^verbatim>\<open>GasAdjustment\<close> is a float64, kept as
  its IEEE-754 bits: the source only compares it with 0 and replaces it by 1.
\<close>

type_synonym float64 = "64 word"

definition float64_is_zero :: "float64 \<Rightarrow> bool" where
  "float64_is_zero x = (x = 0 \<or> x = 0x8000000000000000)"

definition float64_one :: float64 where
  "float64_one = 0x3FF0000000000000"

record Factory =
  AccountNumber :: u64
  Sequence :: u64
  Gas :: u64
  GasAdjustment :: float64
  Memo :: string
  Fees :: string

definition WithMemo :: "string \<Rightarrow> Factory \<Rightarrow> Factory" where
  "WithMemo memo f = f\<lparr>Memo := memo\<rparr>"

definition WithGasAdjustment :: "float64 \<Rightarrow> Factory \<Rightarrow> Factory" where
  "WithGasAdjustment a f = f\<lparr>GasAdjustment := a\<rparr>"

definition WithGas :: "u64 \<Rightarrow> Factory \<Rightarrow> Factory" where
  "WithGas gas f = f\<lparr>Gas := gas\<rparr>"

definition WithSequence :: "u64 \<Rightarrow> Factory \<Rightarrow> Factory" where
  "WithSequence seq f = f\<lparr>Sequence := seq\<rparr>"

definition WithAccountNumber :: "u64 \<Rightarrow> Factory \<Rightarrow> Factory" where
  "WithAccountNumber num f = f\<lparr>AccountNumber := num\<rparr>"

record TxResponse =
  Code :: u32
  RawLog :: string
  TxHash :: string

record Context =
  FromName :: string
  FromAddress :: bytes

subsection \<open>Collaborators and their effects\<close>

text \<open>
  Gas estimation, building, signing, encoding, submission and the account queries belong
  to the SDK and the node. Each is a parameter: a function of the state \<open>'w\<close> of the
  world outside the broadcaster (node, keyring, network) that returns its Go result
  and the world afterwards. \<open>'m\<close> is the type of messages, \<open>'t\<close> of transactions
  under construction: \<^verbatim>\<open>tx.Sign\<close> changes the transaction it is given in
  place, here it returns the signed one. The ABCI code registered for the SDK's
  mempool-cache error and the rendering \<^verbatim>\<open>resp.String()\<close> are parameters as well.
\<close>

record ('w, 'm, 't) env =
  CalculateGas :: "'w \<Rightarrow> Context \<Rightarrow> Factory \<Rightarrow> 'm list \<Rightarrow> (error + u64) \<times> 'w"
  BuildUnsignedTx :: "'w \<Rightarrow> Factory \<Rightarrow> 'm list \<Rightarrow> (error + 't) \<times> 'w"
  Sign :: "'w \<Rightarrow> Factory \<Rightarrow> string \<Rightarrow> 't \<Rightarrow> (error + 't) \<times> 'w"
  TxEncoder :: "'w \<Rightarrow> 't \<Rightarrow> (error + bytes) \<times> 'w"
  BroadcastTx :: "'w \<Rightarrow> bytes \<Rightarrow> (error + TxResponse) \<times> 'w"
  EnsureExists :: "'w \<Rightarrow> bytes \<Rightarrow> error option \<times> 'w"
  GetAccountNumberSequence :: "'w \<Rightarrow> bytes \<Rightarrow> (error + u64 \<times> u64) \<times> 'w"
  MempoolCacheCode :: u32
  TxResponse_String :: "TxResponse \<Rightarrow> string"

text \<open>
  The calls the broadcaster makes, in order: the mutex operations and each call of a
  collaborator, with the factory or the bytes it was given; the two calls that reach the
  node while broadcasting also record the node's reply.
\<close>

datatype event =
    EvLock
  | EvUnlock
  | EvCalculateGas Factory "error + u64"
  | EvBuildUnsignedTx Factory
  | EvSign Factory
  | EvEncode
  | EvBroadcastTx bytes "error + TxResponse"
  | EvEnsureExists
  | EvGetAccountNumberSequence

text \<open>
  The struct \<^verbatim>\<open>broadcaster\<close> (\<open>ctx\<close>, \<open>txf\<close>; the mutex shows as \<open>EvLock\<close> and
  \<open>EvUnlock\<close> in the trace), together with the world and the trace of calls so far.
\<close>

record 'w broadcaster =
  ctx :: Context
  txf :: Factory
  node :: 'w
  trace :: "event list"

definition emit :: "event \<Rightarrow> 'w broadcaster \<Rightarrow> 'w broadcaster" where
  "emit e s = s\<lparr>trace := trace s @ [e]\<rparr>"

definition calculateGas ::
  "('w, 'm, 't) env \<Rightarrow> Factory \<Rightarrow> 'm list \<Rightarrow> 'w broadcaster \<Rightarrow> (error + u64) \<times> 'w broadcaster" where
  "calculateGas env f msgs s =
     (case CalculateGas env (node s) (ctx s) f msgs of
        (r, w) \<Rightarrow> (r, emit (EvCalculateGas f r) (s\<lparr>node := w\<rparr>)))"

definition buildUnsignedTx ::
  "('w, 'm, 't) env \<Rightarrow> Factory \<Rightarrow> 'm list \<Rightarrow> 'w broadcaster \<Rightarrow> (error + 't) \<times> 'w broadcaster" where
  "buildUnsignedTx env f msgs s =
     (case BuildUnsignedTx env (node s) f msgs of
        (r, w) \<Rightarrow> (r, emit (EvBuildUnsignedTx f) (s\<lparr>node := w\<rparr>)))"

definition sign ::
  "('w, 'm, 't) env \<Rightarrow> Factory \<Rightarrow> string \<Rightarrow> 't \<Rightarrow> 'w broadcaster \<Rightarrow> (error + 't) \<times> 'w broadcaster" where
  "sign env f name t s =
     (case Sign env (node s) f name t of
        (r, w) \<Rightarrow> (r, emit (EvSign f) (s\<lparr>node := w\<rparr>)))"

definition txEncoder ::
  "('w, 'm, 't) env \<Rightarrow> 't \<Rightarrow> 'w broadcaster \<Rightarrow> (error + bytes) \<times> 'w broadcaster" where
  "txEncoder env t s =
     (case TxEncoder env (node s) t of
        (r, w) \<Rightarrow> (r, emit EvEncode (s\<lparr>node := w\<rparr>)))"

definition broadcastTx ::
  "('w, 'm, 't) env \<Rightarrow> bytes \<Rightarrow> 'w broadcaster \<Rightarrow> (error + TxResponse) \<times> 'w broadcaster" where
  "broadcastTx env txBytes s =
     (case BroadcastTx env (node s) txBytes of
        (r, w) \<Rightarrow> (r, emit (EvBroadcastTx txBytes r) (s\<lparr>node := w\<rparr>)))"

definition ensureExists ::
  "('w, 'm, 't) env \<Rightarrow> bytes \<Rightarrow> 'w broadcaster \<Rightarrow> error option \<times> 'w broadcaster" where
  "ensureExists env addr s =
     (case EnsureExists env (node s) addr of
        (r, w) \<Rightarrow> (r, emit EvEnsureExists (s\<lparr>node := w\<rparr>)))"

definition getAccountNumberSequence ::
  "('w, 'm, 't) env \<Rightarrow> bytes \<Rightarrow> 'w broadcaster \<Rightarrow> (error + u64 \<times> u64) \<times> 'w broadcaster" where
  "getAccountNumberSequence env addr s =
     (case GetAccountNumberSequence env (node s) addr of
        (r, w) \<Rightarrow> (r, emit EvGetAccountNumberSequence (s\<lparr>node := w\<rparr>)))"

subsection \<open>broadcast\<close>

text \<open>
  Lines 190 to 194 of \<^verbatim>\<open>broadcast\<close>: the factory of the attempt is a copy of
  \<^verbatim>\<open>b.txf\<close> with the memo, and with gas adjustment 1 when none is configured.
\<close>

definition attemptFactory :: "string \<Rightarrow> Factory \<Rightarrow> Factory" where
  "attemptFactory memo f =
     (let f1 = WithMemo memo f
      in if float64_is_zero (GasAdjustment f1) then WithGasAdjustment float64_one f1 else f1)"

text \<open>
  Lines 196 to 210 without the retry: a configured gas limit is used as it is, otherwise
  gas is estimated; \<open>Inl\<close> is the estimation error.
\<close>

definition resolveGas ::
  "('w, 'm, 't) env \<Rightarrow> Factory \<Rightarrow> 'm list \<Rightarrow> 'w broadcaster \<Rightarrow> (error + Factory) \<times> 'w broadcaster" where
  "resolveGas env f msgs s =
     (if Gas f = 0
      then (case calculateGas env f msgs s of
              (Inl err, s1) \<Rightarrow> (Inl err, s1)
            | (Inr gas, s1) \<Rightarrow> (Inr (WithGas gas f), s1))
      else (Inr f, s))"

text \<open>
  Lines 212 to 230: build, sign, encode and submit; each failure returns at once, wrapped
  with its stage.
\<close>

definition submit ::
  "('w, 'm, 't) env \<Rightarrow> Factory \<Rightarrow> 'm list \<Rightarrow> 'w broadcaster \<Rightarrow> (error + TxResponse) \<times> 'w broadcaster" where
  "submit env f msgs s =
     (case buildUnsignedTx env f msgs s of
        (Inl err, s1) \<Rightarrow> (Inl (Wrapf ''failed to build tx'' err), s1)
      | (Inr unsignedTx, s1) \<Rightarrow>
          (case sign env f (FromName (ctx s1)) unsignedTx s1 of
             (Inl err, s2) \<Rightarrow> (Inl (Wrapf ''failed to sign tx'' err), s2)
           | (Inr signedTx, s2) \<Rightarrow>
               (case txEncoder env signedTx s2 of
                  (Inl err, s3) \<Rightarrow> (Inl (Wrapf ''failed to encode tx'' err), s3)
                | (Inr txBytes, s3) \<Rightarrow>
                    (case broadcastTx env txBytes s3 of
                       (Inl err, s4) \<Rightarrow> (Inl (Wrapf ''failed to broadcast tx'' err), s4)
                     | (Inr resp, s4) \<Rightarrow> (Inr resp, s4)))))"

text \<open>
  Lines 200 to 202 and 238 to 240: the sequence read from the error text replaces the
  local one when it is not 0.
\<close>

definition correctSequence :: "string \<Rightarrow> 'w broadcaster \<Rightarrow> 'w broadcaster" where
  "correctSequence m s =
     (let seq = getNextSequence m
      in if seq \<noteq> 0 then s\<lparr>txf := WithSequence seq (txf s)\<rparr> else s)"

text \<open>
  \<^verbatim>\<open>broadcast(msgs, memo, isRetry)\<close>. The mutex is taken on the entry that is not a
  retry and released when that entry returns (\<^verbatim>\<open>defer\<close>); the recursive call passes
  \<^verbatim>\<open>isRetry = true\<close>.
\<close>

function broadcast ::
  "('w, 'm, 't) env \<Rightarrow> 'm list \<Rightarrow> string \<Rightarrow> bool \<Rightarrow> 'w broadcaster \<Rightarrow> (error + TxResponse) \<times> 'w broadcaster" where
  "broadcast env msgs memo isRetry s0 =
     (let s = (if \<not> isRetry then emit EvLock s0 else s0);
          (out, s') =
            (case resolveGas env (attemptFactory memo (txf s)) msgs s of
               (Inl err, s1) \<Rightarrow>
                 if \<not> isRetry
                 then broadcast env msgs memo True (correctSequence (Error err) s1)
                 else (Inl (Wrapf ''failed to calculate gas'' err), s1)
             | (Inr f, s1) \<Rightarrow>
                 (case submit env f msgs s1 of
                    (Inl err, s2) \<Rightarrow> (Inl err, s2)
                  | (Inr resp, s2) \<Rightarrow>
                      if Code resp \<noteq> 0
                      then if MempoolCacheCode env = Code resp
                           then (Inl ErrTxInMempoolCache, s2)
                           else if \<not> isRetry
                           then broadcast env msgs memo True (correctSequence (RawLog resp) s2)
                           else (Inl (Errorf ''failed to broadcast tx'' (TxResponse_String env resp)), s2)
                      else (Inr resp, s2\<lparr>txf := WithSequence (Sequence (txf s2) + 1) (txf s2)\<rparr>)))
      in (out, if \<not> isRetry then emit EvUnlock s' else s'))"
  by pat_completeness auto
termination
  by (relation "measure (\<lambda>(env, msgs, memo, isRetry, s0). if isRetry then 0 else 1)") auto

declare broadcast.simps [simp del]

text \<open>\<^verbatim>\<open>Broadcast\<close> and \<^verbatim>\<open>BroadcastMsg\<close>.\<close>

definition Broadcast ::
  "('w, 'm, 't) env \<Rightarrow> 'm list \<Rightarrow> string \<Rightarrow> 'w broadcaster \<Rightarrow> (error + TxResponse) \<times> 'w broadcaster" where
  "Broadcast env msgs memo s =
     (case broadcast env msgs memo False s of
        (Inl err, s') \<Rightarrow> (Inl (Wrapf ''failed to broadcast'' err), s')
      | (Inr out, s') \<Rightarrow> (Inr out, s'))"

definition BroadcastMsg ::
  "('w, 'm, 't) env \<Rightarrow> 'm \<Rightarrow> string \<Rightarrow> 'w broadcaster \<Rightarrow> (error + TxResponse) \<times> 'w broadcaster" where
  "BroadcastMsg env msg memo s = Broadcast env [msg] memo s"

subsection \<open>refreshSequence\<close>

definition From :: "'w broadcaster \<Rightarrow> bytes" where
  "From s = FromAddress (ctx s)"

definition refreshSequence ::
  "('w, 'm, 't) env \<Rightarrow> 'w broadcaster \<Rightarrow> error option \<times> 'w broadcaster" where
  "refreshSequence env s =
     (case ensureExists env (From s) s of
        (Some err, s1) \<Rightarrow> (Some (Wrapf ''failed to EnsureExists'' err), s1)
      | (None, s1) \<Rightarrow>
          (case getAccountNumberSequence env (From s1) s1 of
             (Inl err, s2) \<Rightarrow> (Some (Wrapf ''failed to get GetAccountNumberSequence'' err), s2)
           | (Inr (num, seq), s2) \<Rightarrow>
               (None, s2\<lparr>txf := WithSequence seq (WithAccountNumber num (txf s2))\<rparr>)))"

subsection \<open>Notions used to state the properties\<close>

text \<open>
  The text contains the sentence the node uses for a sequence mismatch: the words, a
  decimal number, the words \<open>, got\<close>, a second decimal number and a colon.
\<close>

definition mentions_mismatch :: "string \<Rightarrow> bool" where
  "mentions_mismatch m =
     (\<exists>pre N M post.
        m = pre @ ''account sequence mismatch, expected '' @ N @ '', got '' @ M @ '':'' @ post \<and>
        N \<noteq> [] \<and> list_all is_digit N \<and> M \<noteq> [] \<and> list_all is_digit M)"

text \<open>The texts a pattern matches from its first to its last item.\<close>

fun lang :: "item list \<Rightarrow> string set" where
  "lang [] = {[]}"
| "lang (One c # r) = {x # u | x u. cls_matches c x \<and> u \<in> lang r}"
| "lang (Plus c # r) =
     {x # v @ u | x v u. cls_matches c x \<and> list_all (cls_matches c) v \<and> u \<in> lang r}"
| "lang (Star c # r) = {v @ u | v u. list_all (cls_matches c) v \<and> u \<in> lang r}"
| "lang (GroupOpen # r) = lang r"
| "lang (GroupClose # r) = lang r"

text \<open>
  The state in which an entry of \<open>broadcast\<close> starts its work and the state it
  hands back: the entry that is not a retry locks first and unlocks last.
\<close>

definition entered :: "bool \<Rightarrow> 'w broadcaster \<Rightarrow> 'w broadcaster" where
  "entered isRetry s = (if \<not> isRetry then emit EvLock s else s)"

definition returned :: "bool \<Rightarrow> 'w broadcaster \<Rightarrow> 'w broadcaster" where
  "returned isRetry s = (if \<not> isRetry then emit EvUnlock s else s)"

text \<open>The calls made between two states of one run.\<close>

definition since :: "'w broadcaster \<Rightarrow> 'w broadcaster \<Rightarrow> event list" where
  "since s s' = drop (length (trace s)) (trace s')"

text \<open>The node's replies to the transactions sent, in the order of sending.\<close>

fun send_reply :: "event \<Rightarrow> (error + TxResponse) list" where
  "send_reply (EvBroadcastTx b r) = [r]"
| "send_reply e = []"

definition sends :: "event list \<Rightarrow> (error + TxResponse) list" where
  "sends tr = concat (map send_reply tr)"

text \<open>The factories handed to gas estimation, building and signing.\<close>

fun factory_of :: "event \<Rightarrow> Factory list" where
  "factory_of (EvCalculateGas f r) = [f]"
| "factory_of (EvBuildUnsignedTx f) = [f]"
| "factory_of (EvSign f) = [f]"
| "factory_of e = []"

definition factories :: "event list \<Rightarrow> Factory list" where
  "factories tr = concat (map factory_of tr)"

fun is_estimate :: "event \<Rightarrow> bool" where
  "is_estimate (EvCalculateGas f r) = True"
| "is_estimate e = False"

fun is_build :: "event \<Rightarrow> bool" where
  "is_build (EvBuildUnsignedTx f) = True"
| "is_build e = False"

text \<open>
  The node reports success: a gas estimation returns an estimate, a submission returns
  a response with code 0. Calls that do not reach the node count as fine.
\<close>

fun node_ok :: "event \<Rightarrow> bool" where
  "node_ok (EvCalculateGas f r) = (case r of Inl err \<Rightarrow> False | Inr g \<Rightarrow> True)"
| "node_ok (EvBroadcastTx b r) = (case r of Inl err \<Rightarrow> False | Inr resp \<Rightarrow> Code resp = 0)"
| "node_ok e = True"

text \<open>
  A bound on the attempts behind a trace: every attempt that gets anywhere starts with a
  gas estimation or with a build, and sends at most once.
\<close>

definition attempts_at_most :: "nat \<Rightarrow> event list \<Rightarrow> bool" where
  "attempts_at_most n tr =
     (length (filter is_estimate tr) \<le> n \<and> length (filter is_build tr) \<le> n \<and>
      length (sends tr) \<le> n)"

text \<open>The mutex is not touched.\<close>

definition lock_free :: "event list \<Rightarrow> bool" where
  "lock_free tr = (EvLock \<notin> set tr \<and> EvUnlock \<notin> set tr)"

text \<open>
  The trace of one stage, summed up: how many estimations and builds at most, the replies
  to what was sent, the sequence of the factories, and that the mutex is left alone.
\<close>

definition stage_trace :: "event list \<Rightarrow> nat \<Rightarrow> nat \<Rightarrow> (error + TxResponse) list \<Rightarrow> u64 \<Rightarrow> bool" where
  "stage_trace tr e b rs q =
     (length (filter is_estimate tr) \<le> e \<and> length (filter is_build tr) \<le> b \<and>
      sends tr = rs \<and> list_all (\<lambda>f. Sequence f = q) (factories tr) \<and> lock_free tr)"

definition succeeded :: "error + TxResponse \<Rightarrow> bool" where
  "succeeded out = (case out of Inl err \<Rightarrow> False | Inr resp \<Rightarrow> True)"

text \<open>Sequential calls of \<open>Broadcast\<close> on one instance, each with its messages and memo.\<close>

fun Broadcast_seq ::
  "('w, 'm, 't) env \<Rightarrow> ('m list \<times> string) list \<Rightarrow> 'w broadcaster \<Rightarrow>
   (error + TxResponse) list \<times> 'w broadcaster" where
  "Broadcast_seq env [] s = ([], s)"
| "Broadcast_seq env ((msgs, memo) # calls) s =
     (case Broadcast env msgs memo s of
        (out, s1) \<Rightarrow>
          (case Broadcast_seq env calls s1 of
             (outs, s2) \<Rightarrow> (out # outs, s2)))"

text \<open>
  What lines 212 to 224 prepare for the node with a factory: the encoding of the
  transaction that is built from the messages and signed, both with this factory, and the
  world afterwards; \<open>None\<close> when building, signing or encoding fails.
\<close>

definition signed_bytes ::
  "('w, 'm, 't) env \<Rightarrow> 'w \<Rightarrow> Factory \<Rightarrow> string \<Rightarrow> 'm list \<Rightarrow> (bytes \<times> 'w) option" where
  "signed_bytes env w f name msgs =
     (case BuildUnsignedTx env w f msgs of
        (Inl err, w1) \<Rightarrow> None
      | (Inr unsignedTx, w1) \<Rightarrow>
          (case Sign env w1 f name unsignedTx of
             (Inl err, w2) \<Rightarrow> None
           | (Inr signedTx, w2) \<Rightarrow>
               (case TxEncoder env w2 signedTx of
                  (Inl err, w3) \<Rightarrow> None
                | (Inr txBytes, w3) \<Rightarrow> Some (txBytes, w3))))"

text \<open>
  Several callers on one instance. A run is the list of the steps taken, in the order in
  which they happen, each with the caller that takes it. \<open>steps_of c\<close> are the steps of
  caller \<open>c\<close> in a run, \<open>by_caller c\<close> makes the steps of a call steps of caller \<open>c\<close>.
\<close>

definition steps_of :: "'c \<Rightarrow> ('c \<times> event) list \<Rightarrow> event list" where
  "steps_of c m = map snd (filter (\<lambda>p. fst p = c) m)"

definition by_caller :: "'c \<Rightarrow> event list \<Rightarrow> ('c \<times> event) list" where
  "by_caller c tr = map (Pair c) tr"

text \<open>
  \<^verbatim>\<open>sync.Mutex\<close>: \<^verbatim>\<open>Lock\<close> returns only when the mutex is unlocked, and
  leaves it locked, whoever the caller is; \<^verbatim>\<open>Unlock\<close> leaves it unlocked and is a
  fatal error on an unlocked mutex. \<open>mutex_run locked m\<close> says that the mutex, locked
  or not at the start, allows the run \<open>m\<close>; the other steps do not concern it.
\<close>

fun mutex_run :: "bool \<Rightarrow> ('c \<times> event) list \<Rightarrow> bool" where
  "mutex_run locked [] = True"
| "mutex_run locked ((c, EvLock) # m) = (\<not> locked \<and> mutex_run True m)"
| "mutex_run locked ((c, EvUnlock) # m) = (locked \<and> mutex_run False m)"
| "mutex_run locked ((c, e) # m) = mutex_run locked m"

subsection \<open>A scripted node\<close>

text \<open>
  A concrete world for running the model: the node answers the i-th gas estimation
  and the j-th submission from two scripts, and the world counts both. Building, signing
  and encoding succeed; the transaction is the low byte of the sequence it was built with.
\<close>

definition ex_env ::
  "(nat \<Rightarrow> error + u64) \<Rightarrow> (nat \<Rightarrow> error + TxResponse) \<Rightarrow> (nat \<times> nat, string, bytes) env" where
  "ex_env estimate reply =
     \<lparr>CalculateGas = (\<lambda>w c f msgs. (estimate (fst w), (Suc (fst w), snd w))),
      BuildUnsignedTx = (\<lambda>w f msgs. (Inr [ucast (Sequence f)], w)),
      Sign = (\<lambda>w f name t. (Inr t, w)),
      TxEncoder = (\<lambda>w t. (Inr t, w)),
      BroadcastTx = (\<lambda>w b. (reply (snd w), (fst w, Suc (snd w)))),
      EnsureExists = (\<lambda>w a. (None, w)),
      GetAccountNumberSequence = (\<lambda>w a. (Inr (7, 5), w)),
      MempoolCacheCode = 19,
      TxResponse_String = RawLog\<rparr>"

definition ex_state :: "u64 \<Rightarrow> (nat \<times> nat) broadcaster" where
  "ex_state g =
     \<lparr>ctx = \<lparr>FromName = ''alice'', FromAddress = [1, 2, 3]\<rparr>,
      txf = \<lparr>AccountNumber = 7, Sequence = 5, Gas = g, GasAdjustment = 0, Memo = [],
             Fees = ''5udec''\<rparr>,
      node = (0, 0),
      trace = []\<rparr>"

definition accepted :: TxResponse where
  "accepted = \<lparr>Code = 0, RawLog = ''[]'', TxHash = ''A1''\<rparr>"

definition duplicate :: TxResponse where
  "duplicate = \<lparr>Code = 19, RawLog = ''tx already in mempool'', TxHash = ''A1''\<rparr>"

definition out_of_gas :: TxResponse where
  "out_of_gas = \<lparr>Code = 11, RawLog = ''out of gas'', TxHash = ''A1''\<rparr>"

definition wrong_sequence :: TxResponse where
  "wrong_sequence =
     \<lparr>Code = 32,
      RawLog = ''x account sequence mismatch, expected 9, got 5: incorrect account sequence'',
      TxHash = ''A1''\<rparr>"

definition estimate_mismatch :: error where
  "estimate_mismatch =
     Ext ''rpc error: account sequence mismatch, expected 7, got 5: incorrect account sequence''"

text \<open>
  Two calls on the scripted node, one after the other, as a run of the callers 0 and 1:
  the second call starts in the state the first one leaves.
\<close>

definition two_calls :: "(nat \<times> event) list" where
  "two_calls =
     [(0, EvLock),
      (0, EvBuildUnsignedTx (attemptFactory ''m1'' (txf (ex_state 200000)))),
      (0, EvSign (attemptFactory ''m1'' (txf (ex_state 200000)))),
      (0, EvEncode),
      (0, EvBroadcastTx [5] (Inr accepted)),
      (0, EvUnlock),
      (1, EvLock),
      (1, EvBuildUnsignedTx (attemptFactory ''m2'' (WithSequence 6 (txf (ex_state 200000))))),
      (1, EvSign (attemptFactory ''m2'' (WithSequence 6 (txf (ex_state 200000))))),
      (1, EvEncode),
      (1, EvBroadcastTx [6] (Inr accepted)),
      (1, EvUnlock)]"

subsection \<open>The earlier revision\<close>

text \<open>
  \<^verbatim>\<open>src/unnamed/part_000\<close> is an earlier revision of the same file, written against
  an older SDK: the struct holds the account number and the sequence itself, a rejected
  transaction is retried only for the SDK's unauthorized code, after a refresh from the
  node, and by \<^verbatim>\<open>Broadcast\<close>, not by \<^verbatim>\<open>broadcast\<close>. Its names carry the
  suffix 0 here.
\<close>

record TxBuilder =
  tb_accountNumber :: u64
  tb_sequence :: u64
  tb_gas :: u64
  tb_gasAdjustment :: float64
  tb_simulateAndExecute :: bool
  tb_chainID :: string
  tb_memo :: string
  tb_fees :: string

text \<open>\<^verbatim>\<open>auth.NewTxBuilder\<close>, without the encoder and the keybase.\<close>

definition NewTxBuilder ::
  "u64 \<Rightarrow> u64 \<Rightarrow> u64 \<Rightarrow> float64 \<Rightarrow> bool \<Rightarrow> string \<Rightarrow> string \<Rightarrow> string \<Rightarrow> TxBuilder" where
  "NewTxBuilder accNumber seq gas gasAdj simulateAndExecute chainID memo fees =
     \<lparr>tb_accountNumber = accNumber, tb_sequence = seq, tb_gas = gas,
      tb_gasAdjustment = gasAdj, tb_simulateAndExecute = simulateAndExecute,
      tb_chainID = chainID, tb_memo = memo, tb_fees = fees\<rparr>"

text \<open>
  The collaborators of the earlier revision. An error of theirs is given by its text
  \<open>t\<close> and becomes \<open>Ext t\<close>: code outside the package cannot return the package's
  private \<^verbatim>\<open>errInvalidSequence\<close>, which \<^verbatim>\<open>Broadcast\<close> tests for.
  \<^verbatim>\<open>GetAccountNumberSequence\<close> returns its three results as Go does: two numbers
  and an error that may be nil.
\<close>

record ('w, 'm) env0 =
  PrepareTxBuilder :: "'w \<Rightarrow> TxBuilder \<Rightarrow> Context \<Rightarrow> (string + TxBuilder) \<times> 'w"
  EnrichWithGas :: "'w \<Rightarrow> TxBuilder \<Rightarrow> Context \<Rightarrow> 'm list \<Rightarrow> (string + TxBuilder) \<times> 'w"
  BuildAndSign :: "'w \<Rightarrow> TxBuilder \<Rightarrow> string \<Rightarrow> string \<Rightarrow> 'm list \<Rightarrow> (string + bytes) \<times> 'w"
  BroadcastTx0 :: "'w \<Rightarrow> bytes \<Rightarrow> (string + TxResponse) \<times> 'w"
  GetAccountNumberSequence0 :: "'w \<Rightarrow> bytes \<Rightarrow> (u64 \<times> u64 \<times> string option) \<times> 'w"
  MempoolCacheCode0 :: u32
  UnauthorizedCode0 :: u32
  TxResponse_String0 :: "TxResponse \<Rightarrow> string"

definition ext :: "string + 'a \<Rightarrow> error + 'a" where
  "ext r = (case r of Inl t \<Rightarrow> Inl (Ext t) | Inr x \<Rightarrow> Inr x)"

datatype event0 =
    EvLock0
  | EvUnlock0
  | EvPrepareTxBuilder TxBuilder
  | EvEnrichWithGas TxBuilder
  | EvBuildAndSign TxBuilder
  | EvBroadcastTx0 bytes "error + TxResponse"
  | EvGetAccountNumberSequence0

text \<open>The struct \<^verbatim>\<open>Broadcaster\<close> of the earlier revision, with the world and the trace.\<close>

record 'w Broadcaster0 =
  ctx0 :: Context
  genesisKeyPass0 :: string
  chainID0 :: string
  num0 :: u64
  seq0 :: u64
  fees0 :: string
  gas0 :: u64
  gasAdj0 :: float64
  node0 :: 'w
  trace0 :: "event0 list"

definition emit0 :: "event0 \<Rightarrow> 'w Broadcaster0 \<Rightarrow> 'w Broadcaster0" where
  "emit0 e s = s\<lparr>trace0 := trace0 s @ [e]\<rparr>"

definition prepareTxBuilder ::
  "('w, 'm) env0 \<Rightarrow> TxBuilder \<Rightarrow> 'w Broadcaster0 \<Rightarrow> (error + TxBuilder) \<times> 'w Broadcaster0" where
  "prepareTxBuilder env txBldr s =
     (case PrepareTxBuilder env (node0 s) txBldr (ctx0 s) of
        (r, w) \<Rightarrow> (ext r, emit0 (EvPrepareTxBuilder txBldr) (s\<lparr>node0 := w\<rparr>)))"

definition enrichWithGas ::
  "('w, 'm) env0 \<Rightarrow> TxBuilder \<Rightarrow> 'm list \<Rightarrow> 'w Broadcaster0 \<Rightarrow>
   (error + TxBuilder) \<times> 'w Broadcaster0" where
  "enrichWithGas env txBldr msgs s =
     (case EnrichWithGas env (node0 s) txBldr (ctx0 s) msgs of
        (r, w) \<Rightarrow> (ext r, emit0 (EvEnrichWithGas txBldr) (s\<lparr>node0 := w\<rparr>)))"

definition buildAndSign ::
  "('w, 'm) env0 \<Rightarrow> TxBuilder \<Rightarrow> string \<Rightarrow> string \<Rightarrow> 'm list \<Rightarrow> 'w Broadcaster0 \<Rightarrow>
   (error + bytes) \<times> 'w Broadcaster0" where
  "buildAndSign env txBldr name passphrase msgs s =
     (case BuildAndSign env (node0 s) txBldr name passphrase msgs of
        (r, w) \<Rightarrow> (ext r, emit0 (EvBuildAndSign txBldr) (s\<lparr>node0 := w\<rparr>)))"

definition broadcastTx0 ::
  "('w, 'm) env0 \<Rightarrow> bytes \<Rightarrow> 'w Broadcaster0 \<Rightarrow> (error + TxResponse) \<times> 'w Broadcaster0" where
  "broadcastTx0 env txBytes s =
     (case BroadcastTx0 env (node0 s) txBytes of
        (r, w) \<Rightarrow> (ext r, emit0 (EvBroadcastTx0 txBytes (ext r)) (s\<lparr>node0 := w\<rparr>)))"

text \<open>
  \<^verbatim>\<open>broadcast(msgs, memo)\<close> of the earlier revision: the builder is made from the
  local numbers before the mutex is taken.
\<close>

definition broadcast0 ::
  "('w, 'm) env0 \<Rightarrow> 'm list \<Rightarrow> string \<Rightarrow> 'w Broadcaster0 \<Rightarrow>
   (error + TxResponse) \<times> 'w Broadcaster0" where
  "broadcast0 env msgs memo s0 =
     (let txBldr = NewTxBuilder (num0 s0) (seq0 s0) (gas0 s0) (gasAdj0 s0) False (chainID0 s0)
                     memo (fees0 s0);
          s = emit0 EvLock0 s0;
          (out, s') =
            (case prepareTxBuilder env txBldr s of
               (Inl err, s1) \<Rightarrow> (Inl (Wrapf ''failed to prepare builder'' err), s1)
             | (Inr txBldr1, s1) \<Rightarrow>
                 (case enrichWithGas env txBldr1 msgs s1 of
                    (Inl err, s2) \<Rightarrow> (Inl (Wrapf ''failed to calculate gas'' err), s2)
                  | (Inr txBldr2, s2) \<Rightarrow>
                      (case buildAndSign env txBldr2 (FromName (ctx0 s2)) (genesisKeyPass0 s2)
                              msgs s2 of
                         (Inl err, s3) \<Rightarrow> (Inl (Wrapf ''failed to build and sign tx'' err), s3)
                       | (Inr txBytes, s3) \<Rightarrow>
                           (case broadcastTx0 env txBytes s3 of
                              (Inl err, s4) \<Rightarrow> (Inl (Wrapf ''failed to broadcast tx'' err), s4)
                            | (Inr resp, s4) \<Rightarrow>
                                if Code resp \<noteq> 0
                                then if MempoolCacheCode0 env = Code resp
                                     then (Inl ErrTxInMempoolCache, s4)
                                     else if UnauthorizedCode0 env = Code resp
                                     then (Inl ErrInvalidSequence, s4)
                                     else (Inl (Errorf ''failed to broadcast tx''
                                                  (TxResponse_String0 env resp)), s4)
                                else (Inr resp, s4\<lparr>seq0 := seq0 s4 + 1\<rparr>)))))
      in (out, emit0 EvUnlock0 s'))"

text \<open>
  \<^verbatim>\<open>refreshSequence\<close> of the earlier revision: both numbers are set to 0, then to
  what the query returns, also when it returns an error.
\<close>

definition refreshSequence0 ::
  "('w, 'm) env0 \<Rightarrow> 'w Broadcaster0 \<Rightarrow> error option \<times> 'w Broadcaster0" where
  "refreshSequence0 env s0 =
     (let s = s0\<lparr>num0 := 0, seq0 := 0\<rparr>
      in case GetAccountNumberSequence0 env (node0 s) (FromAddress (ctx0 s)) of
           ((num, seq, err), w) \<Rightarrow>
             (map_option Ext err,
              emit0 EvGetAccountNumberSequence0 (s\<lparr>num0 := num, seq0 := seq, node0 := w\<rparr>)))"

text \<open>\<^verbatim>\<open>Broadcast\<close> and \<^verbatim>\<open>BroadcastMsg\<close> of the earlier revision.\<close>

definition Broadcast0 ::
  "('w, 'm) env0 \<Rightarrow> 'm list \<Rightarrow> string \<Rightarrow> 'w Broadcaster0 \<Rightarrow>
   (error + TxResponse) \<times> 'w Broadcaster0" where
  "Broadcast0 env msgs memo s =
     (case broadcast0 env msgs memo s of
        (Inl err, s1) \<Rightarrow>
          if errors_Is err ErrInvalidSequence
          then (case refreshSequence0 env s1 of
                  (Some err', s2) \<Rightarrow> (Inl (Wrapf ''failed to refresh sequence'' err'), s2)
                | (None, s2) \<Rightarrow>
                    (case broadcast0 env msgs memo s2 of
                       (Inl err', s3) \<Rightarrow> (Inl (Wrapf ''failed to broadcast'' err'), s3)
                     | (Inr out, s3) \<Rightarrow> (Inr out, s3)))
          else (Inl (Wrapf ''failed to broadcast'' err), s1)
      | (Inr out, s1) \<Rightarrow> (Inr out, s1))"

definition BroadcastMsg0 ::
  "('w, 'm) env0 \<Rightarrow> 'm \<Rightarrow> string \<Rightarrow> 'w Broadcaster0 \<Rightarrow>
   (error + TxResponse) \<times> 'w Broadcaster0" where
  "BroadcastMsg0 env msg memo s = Broadcast0 env [msg] memo s"

fun send_reply0 :: "event0 \<Rightarrow> (error + TxResponse) list" where
  "send_reply0 (EvBroadcastTx0 b r) = [r]"
| "send_reply0 e = []"

definition sends0 :: "event0 list \<Rightarrow> (error + TxResponse) list" where
  "sends0 tr = concat (map send_reply0 tr)"

definition since0 :: "'w Broadcaster0 \<Rightarrow> 'w Broadcaster0 \<Rightarrow> event0 list" where
  "since0 s s' = drop (length (trace0 s)) (trace0 s')"

definition reply_ok :: "error + TxResponse \<Rightarrow> bool" where
  "reply_ok r = (case r of Inl err \<Rightarrow> False | Inr resp \<Rightarrow> Code resp = 0)"

fun Broadcast0_seq ::
  "('w, 'm) env0 \<Rightarrow> ('m list \<times> string) list \<Rightarrow> 'w Broadcaster0 \<Rightarrow>
   (error + TxResponse) list \<times> 'w Broadcaster0" where
  "Broadcast0_seq env [] s = ([], s)"
| "Broadcast0_seq env ((msgs, memo) # calls) s =
     (case Broadcast0 env msgs memo s of
        (out, s1) \<Rightarrow>
          (case Broadcast0_seq env calls s1 of
             (outs, s2) \<Rightarrow> (out # outs, s2)))"

section \<open>Properties\<close>

subsection \<open>BroadcastMsg\<close>

text \<open>
  C10. For every message and memo, \<open>BroadcastMsg\<close> returns the result and the error,
  and leaves the broadcaster in the state, that \<open>Broadcast\<close> gives for the list of that
  one message and the same memo.
\<close>

theorem BroadcastMsg_singleton:
  "BroadcastMsg env msg memo s = Broadcast env [msg] memo s"
  by (simp add: BroadcastMsg_def)

subsection \<open>getNextSequence\<close>

text \<open>A match of the engine is a text of the pattern's language, followed by the rest.\<close>

lemma rmatch_sound:
  "rmatch r s st gs = Some (rest, gs') \<Longrightarrow> \<exists>u. s = u @ rest \<and> u \<in> lang r"
proof (induction r s st gs arbitrary: rest gs' rule: rmatch.induct)
  case (1 s st gs)
  then show ?case by simp
next
  case (2 c r st gs)
  then show ?case by simp
next
  case (3 c r x s st gs)
  then show ?case by (auto split: if_splits)
next
  case (4 c r st gs)
  from 4 obtain u where "[] = u @ rest" "u \<in> lang r" by auto
  then show ?case by (intro exI[of _ u]) (auto intro: exI[of _ "[]"])
next
  case (5 c r x s st gs)
  show ?case
  proof (cases "cls_matches c x")
    case True
    show ?thesis
    proof (cases "rmatch (Star c # r) s st gs")
      case None
      with True 5 obtain u where u: "x # s = u @ rest" "u \<in> lang r" by auto
      then show ?thesis by (intro exI[of _ u]) (auto intro: exI[of _ "[]"])
    next
      case (Some m)
      with True 5 have "rmatch (Star c # r) s st gs = Some (rest, gs')" by simp
      with 5(1)[OF True] obtain u where "s = u @ rest" "u \<in> lang (Star c # r)" by blast
      then obtain v w where vw: "list_all (cls_matches c) v" "w \<in> lang r" "s = v @ w @ rest"
        by auto
      from vw have "x # s = ((x # v) @ w) @ rest" by simp
      moreover have "(x # v) @ w \<in> lang (Star c # r)"
        unfolding lang.simps mem_Collect_eq
        using True vw by (intro exI[of _ "x # v"] exI[of _ w]) simp
      ultimately show ?thesis by blast
    qed
  next
    case False
    with 5 obtain u where u: "x # s = u @ rest" "u \<in> lang r" by auto
    then show ?thesis by (intro exI[of _ u]) (auto intro: exI[of _ "[]"])
  qed
next
  case (6 c r s st gs)
  from 6(2) have "rmatch (One c # Star c # r) s st gs = Some (rest, gs')" by simp
  from 6(1)[OF this] obtain u where u: "s = u @ rest" "u \<in> lang (One c # Star c # r)"
    by blast
  from u(2) have "u \<in> lang (Plus c # r)" by auto
  with u(1) show ?case by blast
next
  case (7 r s st gs)
  then show ?case by simp
next
  case (8 r s gs)
  then show ?case by simp
next
  case (9 r s b st gs)
  then show ?case by simp
qed

lemma FindStringSubmatch_sound:
  "FindStringSubmatch re m \<noteq> [] \<Longrightarrow> \<exists>pre u post. m = pre @ u @ post \<and> u \<in> lang re"
proof (induction m)
  case Nil
  then obtain rest gs where "rmatch re [] [] [] = Some (rest, gs)"
    by (auto split: option.splits)
  from rmatch_sound[OF this] show ?case by auto
next
  case (Cons x m)
  show ?case
  proof (cases "rmatch re (x # m) [] []")
    case None
    with Cons obtain pre u post where "m = pre @ u @ post" "u \<in> lang re" by auto
    then show ?thesis by (intro exI[of _ "x # pre"] exI[of _ u] exI[of _ post]) simp
  next
    case (Some a)
    then obtain rest gs where "rmatch re (x # m) [] [] = Some (rest, gs)" by (cases a) auto
    from rmatch_sound[OF this] obtain u where "x # m = u @ rest" "u \<in> lang re" by auto
    then show ?thesis by (intro exI[of _ "[]"] exI[of _ u] exI[of _ rest]) simp
  qed
qed

lemma lang_lits: "lang (lits w @ r) = {w @ u | u. u \<in> lang r}"
  by (induction w) (auto simp: lits_def)

lemma regexp_lang:
  assumes "u \<in> lang accountSequenceMismatchErrorRegExp"
  shows "mentions_mismatch u"
proof -
  from assms obtain x v u1 where u: "u = x # v @ u1"
    and u1: "u1 \<in> lang (lits ''account sequence mismatch, expected '' @
     [GroupOpen, Plus Digit, GroupClose] @ lits '', got '' @
     [Plus Digit] @ lits '':'' @ [Plus Dot])"
    by (auto simp: accountSequenceMismatchErrorRegExp_def)
  from u1 obtain u2 where u2: "u1 = ''account sequence mismatch, expected '' @ u2"
    "u2 \<in> lang ([GroupOpen, Plus Digit, GroupClose] @ lits '', got '' @
     [Plus Digit] @ lits '':'' @ [Plus Dot])"
    unfolding lang_lits by blast
  from u2(2) obtain d ds u3 where u3: "u2 = d # ds @ u3" "is_digit d" "list_all is_digit ds"
    "u3 \<in> lang (GroupClose # lits '', got '' @ [Plus Digit] @ lits '':'' @ [Plus Dot])"
    by (auto simp: list_all_iff)
  from u3(4) have "u3 \<in> lang (lits '', got '' @ [Plus Digit] @ lits '':'' @ [Plus Dot])"
    by simp
  then obtain u4 where u4: "u3 = '', got '' @ u4"
    "u4 \<in> lang ([Plus Digit] @ lits '':'' @ [Plus Dot])"
    unfolding lang_lits by blast
  from u4(2) obtain e es u5 where u5: "u4 = e # es @ u5" "is_digit e" "list_all is_digit es"
    "u5 \<in> lang (lits '':'' @ [Plus Dot])"
    by (auto simp: list_all_iff)
  from u5(4) obtain u6 where u6: "u5 = '':'' @ u6"
    unfolding lang_lits by blast
  have "u = (x # v) @ ''account sequence mismatch, expected '' @ (d # ds) @ '', got '' @
            (e # es) @ '':'' @ u6"
    using u u2(1) u3(1) u4(1) u5(1) u6 by simp
  moreover have "d # ds \<noteq> []" "list_all is_digit (d # ds)" "e # es \<noteq> []"
    "list_all is_digit (e # es)"
    using u3 u5 by simp_all
  ultimately show ?thesis unfolding mentions_mismatch_def by blast
qed

lemma mentions_mismatch_append:
  assumes "mentions_mismatch u"
  shows "mentions_mismatch (pre @ u @ post)"
proof -
  from assms obtain p N M q where
    u: "u = p @ ''account sequence mismatch, expected '' @ N @ '', got '' @ M @ '':'' @ q"
    and d: "N \<noteq> []" "list_all is_digit N" "M \<noteq> []" "list_all is_digit M"
    unfolding mentions_mismatch_def by blast
  from u have "pre @ u @ post =
      (pre @ p) @ ''account sequence mismatch, expected '' @ N @ '', got '' @ M @ '':'' @
      (q @ post)"
    by simp
  with d show ?thesis unfolding mentions_mismatch_def by blast
qed

lemma no_mention_no_sequence:
  assumes "\<not> mentions_mismatch m"
  shows "getNextSequence m = 0"
proof -
  have "FindStringSubmatch accountSequenceMismatchErrorRegExp m = []"
  proof (rule ccontr)
    assume "FindStringSubmatch accountSequenceMismatchErrorRegExp m \<noteq> []"
    from FindStringSubmatch_sound[OF this] obtain pre u post
      where "m = pre @ u @ post" "u \<in> lang accountSequenceMismatchErrorRegExp" by blast
    with regexp_lang mentions_mismatch_append assms show False by blast
  qed
  then show ?thesis by (simp add: getNextSequence_def)
qed

text \<open>
  A greedy \<^verbatim>\<open>.+\<close> gives back what it took: characters in front of a text that
  matches do not change the match, as long as none is a newline.
\<close>

lemma rmatch_Star_Dot_prefix:
  "CHR 0x0A \<notin> set p \<Longrightarrow> rmatch (Star Dot # r) t st gs = Some m \<Longrightarrow>
   rmatch (Star Dot # r) (p @ t) st gs = Some m"
  by (induction p) auto

lemma rmatch_example:
  "rmatch (Star Dot # tl accountSequenceMismatchErrorRegExp)
     ''account sequence mismatch, expected 42, got 40: ...'' [] [] = Some ([], [''42''])"
  by code_simp

lemma ParseUint_42: "ParseUint ''42'' = (42, False)"
  by (simp add: ParseUint_def is_digit_def digit_val_def)

lemma prefixed_example:
  assumes "p \<noteq> []" "CHR 0x0A \<notin> set p"
  shows "getNextSequence (p @ ''account sequence mismatch, expected 42, got 40: ...'') = 42"
proof -
  let ?t = "''account sequence mismatch, expected 42, got 40: ...''"
  from assms obtain c p' where p: "p = c # p'" "c \<noteq> CHR 0x0A" "CHR 0x0A \<notin> set p'"
    by (cases p) auto
  have re: "accountSequenceMismatchErrorRegExp = Plus Dot # tl accountSequenceMismatchErrorRegExp"
    by (simp add: accountSequenceMismatchErrorRegExp_def)
  have "rmatch accountSequenceMismatchErrorRegExp (p @ ?t) [] [] =
        rmatch (Star Dot # tl accountSequenceMismatchErrorRegExp) (p' @ ?t) [] []"
    by (subst re) (simp add: p)
  also have "\<dots> = Some ([], [''42''])"
    by (rule rmatch_Star_Dot_prefix[OF p(3) rmatch_example])
  finally have "FindStringSubmatch accountSequenceMismatchErrorRegExp (p @ ?t) = [p @ ?t, ''42'']"
    by (simp add: p)
  then show ?thesis
    by (simp add: getNextSequence_def ParseUint_42)
qed

lemma out_of_gas_no_mention: "\<not> mentions_mismatch ''out of gas''"
proof
  assume "mentions_mismatch ''out of gas''"
  then obtain pre N M post where
    "''out of gas'' =
       pre @ ''account sequence mismatch, expected '' @ N @ '', got '' @ M @ '':'' @ post"
    unfolding mentions_mismatch_def by blast
  then have "length ''out of gas'' =
       length (pre @ ''account sequence mismatch, expected '' @ N @ '', got '' @ M @ '':'' @ post)"
    by (rule arg_cong)
  then show False by simp
qed

text \<open>
  C4, as stated, fails on its example: the pattern starts with \<^verbatim>\<open>.+\<close>, which
  needs a character in front of the sentence, and the example text starts with the
  sentence. \<open>getNextSequence\<close> returns 0 on it.
\<close>

theorem getNextSequence_bare_example:
  "getNextSequence ''account sequence mismatch, expected 42, got 40: ...'' = 0 \<and>
   getNextSequence ''account sequence mismatch, expected 42, got 40: ...'' \<noteq> 42"
  by code_simp

text \<open>
  C4, amended. \<open>getNextSequence\<close> returns 42 on the example text when at least one
  character, none of them a newline, stands in front of it; and it returns 0 on every
  text that does not contain the sentence
  \<^verbatim>\<open>account sequence mismatch, expected <N>, got <M>:\<close> with decimal numbers N and M.
\<close>

theorem getNextSequence_extraction:
  "(p \<noteq> [] \<and> CHR 0x0A \<notin> set p \<longrightarrow>
      getNextSequence (p @ ''account sequence mismatch, expected 42, got 40: ...'') = 42) \<and>
   (\<not> mentions_mismatch m \<longrightarrow> getNextSequence m = 0)"
  using prefixed_example[of p] no_mention_no_sequence[of m] by blast

theorem getNextSequence_extraction_witness:
  "getNextSequence ''rpc error: account sequence mismatch, expected 42, got 40: ...'' = 42 \<and>
   getNextSequence ''out of gas'' = 0"
  using getNextSequence_extraction[of "''rpc error: ''" "''out of gas''"] out_of_gas_no_mention
  by simp

subsection \<open>Traces\<close>

lemma emit_simps [simp]:
  "trace (emit e s) = trace s @ [e]" "txf (emit e s) = txf s" "ctx (emit e s) = ctx s"
  "node (emit e s) = node s"
  by (simp_all add: emit_def)

lemma entered_simps [simp]:
  "txf (entered r s) = txf s" "ctx (entered r s) = ctx s" "node (entered r s) = node s"
  "trace (entered r s) = trace s @ (if r then [] else [EvLock])"
  "entered True s = s" "entered False s = emit EvLock s"
  by (simp_all add: entered_def)

lemma returned_simps [simp]:
  "txf (returned r s) = txf s" "ctx (returned r s) = ctx s" "node (returned r s) = node s"
  "trace (returned r s) = trace s @ (if r then [] else [EvUnlock])"
  "returned True s = s" "returned False s = emit EvUnlock s"
  by (simp_all add: returned_def)

lemma correctSequence_simps [simp]:
  "trace (correctSequence m s) = trace s" "ctx (correctSequence m s) = ctx s"
  "node (correctSequence m s) = node s"
  by (simp_all add: correctSequence_def Let_def)


lemma correctSequence_none: "getNextSequence m = 0 \<Longrightarrow> correctSequence m s = s"
  by (simp add: correctSequence_def)

lemma sends_simps [simp]:
  "sends [] = []" "sends (e # tr) = send_reply e @ sends tr"
  "sends (tr @ tr') = sends tr @ sends tr'"
  by (simp_all add: sends_def)

lemma factories_simps [simp]:
  "factories [] = []" "factories (e # tr) = factory_of e @ factories tr"
  "factories (tr @ tr') = factories tr @ factories tr'"
  by (simp_all add: factories_def)

lemma since_append: "trace s' = trace s @ tr \<Longrightarrow> since s s' = tr"
  by (simp add: since_def)

lemma attemptFactory_Sequence [simp]: "Sequence (attemptFactory memo f) = Sequence f"
  by (simp add: attemptFactory_def WithMemo_def WithGasAdjustment_def Let_def)

lemma stage_trace_append:
  "stage_trace tr e b rs q \<Longrightarrow> stage_trace tr' e' b' rs' q \<Longrightarrow>
   stage_trace (tr @ tr') (e + e') (b + b') (rs @ rs') q"
  by (auto simp: stage_trace_def lock_free_def)

lemma stage_trace_Nil [simp]: "stage_trace [] e b [] q"
  by (simp add: stage_trace_def lock_free_def)

lemma stage_trace_lock_free: "stage_trace tr e b rs q \<Longrightarrow> lock_free tr"
  by (simp add: stage_trace_def)

lemma lock_free_append [simp]: "lock_free (tr @ tr') \<longleftrightarrow> lock_free tr \<and> lock_free tr'"
  by (auto simp: lock_free_def)

lemma resolveGas_state:
  assumes "resolveGas env f msgs s = (r, s1)"
  shows "txf s1 = txf s" "ctx s1 = ctx s" "r = Inr f' \<Longrightarrow> Sequence f' = Sequence f"
  using assms
  by (auto simp: resolveGas_def calculateGas_def WithGas_def split: if_splits prod.splits sum.splits)

lemma resolveGas_trace:
  assumes "resolveGas env f msgs s = (r, s1)"
  obtains tr where "trace s1 = trace s @ tr" "stage_trace tr 1 0 [] (Sequence f)"
    "list_all node_ok tr \<longleftrightarrow> (\<exists>f'. r = Inr f')"
proof -
  have "\<exists>tr. trace s1 = trace s @ tr \<and> stage_trace tr 1 0 [] (Sequence f) \<and>
          (list_all node_ok tr \<longleftrightarrow> (\<exists>f'. r = Inr f'))"
    using assms
    by (auto simp: resolveGas_def calculateGas_def WithGas_def stage_trace_def lock_free_def
        split: if_splits prod.splits sum.splits)
  then show thesis using that by blast
qed

lemma submit_state:
  assumes "submit env f msgs s = (r, s1)"
  shows "txf s1 = txf s" "ctx s1 = ctx s"
  using assms
  by (auto simp: submit_def buildUnsignedTx_def sign_def txEncoder_def broadcastTx_def
      split: if_splits prod.splits sum.splits)

lemma submit_trace_Inr:
  assumes "submit env f msgs s = (Inr resp, s1)"
  obtains tr where "trace s1 = trace s @ tr" "stage_trace tr 0 1 [Inr resp] (Sequence f)"
    "list_all node_ok tr \<longleftrightarrow> Code resp = 0"
proof -
  have "\<exists>tr. trace s1 = trace s @ tr \<and> stage_trace tr 0 1 [Inr resp] (Sequence f) \<and>
          (list_all node_ok tr \<longleftrightarrow> Code resp = 0)"
    using assms
    by (auto simp: submit_def buildUnsignedTx_def sign_def txEncoder_def broadcastTx_def
        stage_trace_def lock_free_def split: if_splits prod.splits sum.splits)
  then show thesis using that by blast
qed

lemma submit_trace_Inl:
  assumes "submit env f msgs s = (Inl e, s1)"
  obtains tr rs where "trace s1 = trace s @ tr" "stage_trace tr 0 1 rs (Sequence f)"
    "rs = [] \<or> (\<exists>err. rs = [Inl err])"
proof -
  have "\<exists>tr rs. trace s1 = trace s @ tr \<and> stage_trace tr 0 1 rs (Sequence f) \<and>
          (rs = [] \<or> (\<exists>err. rs = [Inl err]))"
    using assms
    by (auto simp: submit_def buildUnsignedTx_def sign_def txEncoder_def broadcastTx_def
        stage_trace_def lock_free_def split: if_splits prod.splits sum.splits)
  then show thesis using that by blast
qed

text \<open>
  The steps of \<open>submit\<close>, one by one: when building, signing and encoding succeed, the
  bytes are sent and the node's answer decides the result; otherwise the stage that failed
  gives the error and nothing is sent.
\<close>

lemma submit_sent:
  assumes "submit env f msgs s = (r, s1)"
  shows "txf s1 = txf s \<and> ctx s1 = ctx s \<and>
    (case signed_bytes env (node s) f (FromName (ctx s)) msgs of
       Some (b, w) \<Rightarrow>
         trace s1 = trace s @ [EvBuildUnsignedTx f, EvSign f, EvEncode,
                               EvBroadcastTx b (fst (BroadcastTx env w b))] \<and>
         node s1 = snd (BroadcastTx env w b) \<and>
         r = (case fst (BroadcastTx env w b) of
               Inl err \<Rightarrow> Inl (Wrapf ''failed to broadcast tx'' err) | Inr resp \<Rightarrow> Inr resp)
     | None \<Rightarrow>
         (\<exists>stage err tr. r = Inl (Wrapf stage err) \<and>
            stage \<in> set [''failed to build tx'', ''failed to sign tx'', ''failed to encode tx''] \<and>
            trace s1 = trace s @ EvBuildUnsignedTx f # tr \<and> sends tr = []))"
  using assms
  by (auto simp: submit_def buildUnsignedTx_def sign_def txEncoder_def broadcastTx_def
        signed_bytes_def split: prod.splits sum.splits)

lemma resolveGas_shape:
  assumes "resolveGas env f msgs s = (r, s1)"
  shows "(\<forall>err. r = Inl err \<longrightarrow> trace s1 = trace s @ [EvCalculateGas f (Inl err)]) \<and>
         (\<forall>f'. r = Inr f' \<longrightarrow>
            (trace s1 = trace s \<or> (\<exists>g. trace s1 = trace s @ [EvCalculateGas f (Inr g)])))"
  using assms
  by (auto simp: resolveGas_def calculateGas_def split: if_splits prod.splits sum.splits)

lemma correctSequence_txf: "txf s1 = txf s \<Longrightarrow> txf (correctSequence m s1) = txf (correctSequence m s)"
  by (simp add: correctSequence_def Let_def)

lemma stage_trace_mono:
  "stage_trace tr e b rs q \<Longrightarrow> e \<le> e' \<Longrightarrow> b \<le> b' \<Longrightarrow> stage_trace tr e' b' rs q"
  by (auto simp: stage_trace_def)

lemma stage_trace_attempts:
  "stage_trace tr e b rs q \<Longrightarrow> e \<le> n \<Longrightarrow> b \<le> n \<Longrightarrow> length rs \<le> n \<Longrightarrow> attempts_at_most n tr"
  by (auto simp: stage_trace_def attempts_at_most_def)

subsection \<open>Symbolic execution of one entry of broadcast\<close>

lemma broadcast_True:
  "broadcast env msgs memo True s =
     (case resolveGas env (attemptFactory memo (txf s)) msgs s of
        (Inl err, s1) \<Rightarrow> (Inl (Wrapf ''failed to calculate gas'' err), s1)
      | (Inr f, s1) \<Rightarrow>
          (case submit env f msgs s1 of
             (Inl err, s2) \<Rightarrow> (Inl err, s2)
           | (Inr resp, s2) \<Rightarrow>
               if Code resp \<noteq> 0
               then if MempoolCacheCode env = Code resp
                    then (Inl ErrTxInMempoolCache, s2)
                    else (Inl (Errorf ''failed to broadcast tx'' (TxResponse_String env resp)), s2)
               else (Inr resp, s2\<lparr>txf := WithSequence (Sequence (txf s2) + 1) (txf s2)\<rparr>)))"
  by (subst broadcast.simps) (simp split: prod.splits sum.splits)

lemma broadcast_False:
  "broadcast env msgs memo False s =
     (case (case resolveGas env (attemptFactory memo (txf s)) msgs (emit EvLock s) of
        (Inl err, s1) \<Rightarrow> broadcast env msgs memo True (correctSequence (Error err) s1)
      | (Inr f, s1) \<Rightarrow>
          (case submit env f msgs s1 of
             (Inl err, s2) \<Rightarrow> (Inl err, s2)
           | (Inr resp, s2) \<Rightarrow>
               if Code resp \<noteq> 0
               then if MempoolCacheCode env = Code resp
                    then (Inl ErrTxInMempoolCache, s2)
                    else broadcast env msgs memo True (correctSequence (RawLog resp) s2)
               else (Inr resp, s2\<lparr>txf := WithSequence (Sequence (txf s2) + 1) (txf s2)\<rparr>))) of
       (out, s') \<Rightarrow> (out, emit EvUnlock s'))"
  by (subst broadcast.simps) (simp split: prod.splits sum.splits)

lemma broadcast_gas_error_retry:
  assumes "resolveGas env (attemptFactory memo (txf s)) msgs s = (Inl err, s1)"
  shows "broadcast env msgs memo True s = (Inl (Wrapf ''failed to calculate gas'' err), s1)"
  using assms by (simp add: broadcast_True)

lemma broadcast_gas_error_first:
  assumes "resolveGas env (attemptFactory memo (txf s)) msgs (emit EvLock s) = (Inl err, s1)"
  shows "broadcast env msgs memo False s =
           (case broadcast env msgs memo True (correctSequence (Error err) s1) of
              (out, s') \<Rightarrow> (out, emit EvUnlock s'))"
  using assms by (simp add: broadcast_False)

lemma broadcast_submit_error:
  assumes "resolveGas env (attemptFactory memo (txf s)) msgs (entered isRetry s) = (Inr f, s1)"
    and "submit env f msgs s1 = (Inl e, s2)"
  shows "broadcast env msgs memo isRetry s = (Inl e, returned isRetry s2)"
  using assms by (cases isRetry) (simp_all add: broadcast_True broadcast_False)

lemma broadcast_mempool:
  assumes "resolveGas env (attemptFactory memo (txf s)) msgs (entered isRetry s) = (Inr f, s1)"
    and "submit env f msgs s1 = (Inr resp, s2)"
    and "Code resp \<noteq> 0" "Code resp = MempoolCacheCode env"
  shows "broadcast env msgs memo isRetry s = (Inl ErrTxInMempoolCache, returned isRetry s2)"
  using assms by (cases isRetry) (simp_all add: broadcast_True broadcast_False)

lemma broadcast_rejected_retry:
  assumes "resolveGas env (attemptFactory memo (txf s)) msgs s = (Inr f, s1)"
    and "submit env f msgs s1 = (Inr resp, s2)"
    and "Code resp \<noteq> 0" "Code resp \<noteq> MempoolCacheCode env"
  shows "broadcast env msgs memo True s =
           (Inl (Errorf ''failed to broadcast tx'' (TxResponse_String env resp)), s2)"
  using assms by (auto simp add: broadcast_True)

lemma broadcast_rejected_first:
  assumes "resolveGas env (attemptFactory memo (txf s)) msgs (emit EvLock s) = (Inr f, s1)"
    and "submit env f msgs s1 = (Inr resp, s2)"
    and "Code resp \<noteq> 0" "Code resp \<noteq> MempoolCacheCode env"
  shows "broadcast env msgs memo False s =
           (case broadcast env msgs memo True (correctSequence (RawLog resp) s2) of
              (out, s') \<Rightarrow> (out, emit EvUnlock s'))"
  using assms by (auto simp add: broadcast_False)

lemma broadcast_accepted:
  assumes "resolveGas env (attemptFactory memo (txf s)) msgs (entered isRetry s) = (Inr f, s1)"
    and "submit env f msgs s1 = (Inr resp, s2)"
    and "Code resp = 0"
  shows "broadcast env msgs memo isRetry s =
           (Inr resp, returned isRetry (s2\<lparr>txf := WithSequence (Sequence (txf s2) + 1) (txf s2)\<rparr>))"
  using assms by (cases isRetry) (simp_all add: broadcast_True broadcast_False returned_def emit_def)

subsection \<open>What the retry leaves behind\<close>

lemma retry_summary:
  assumes run: "broadcast env msgs memo True s = (out, s')"
  obtains tr rs where "trace s' = trace s @ tr" "stage_trace tr 1 1 rs (Sequence (txf s))"
    "length rs \<le> 1"
    "\<And>resp. out = Inr resp \<Longrightarrow>
       Sequence (txf s') = Sequence (txf s) + 1 \<and> rs = [Inr resp] \<and> Code resp = 0 \<and>
       list_all node_ok tr"
    "\<And>e. out = Inl e \<Longrightarrow> txf s' = txf s"
    "\<And>e resp. out = Inl e \<Longrightarrow> rs = [Inr resp] \<Longrightarrow>
       Code resp \<noteq> 0 \<and>
       e = (if Code resp = MempoolCacheCode env then ErrTxInMempoolCache
            else Errorf ''failed to broadcast tx'' (TxResponse_String env resp))"
proof -
  let ?q = "Sequence (txf s)"
  obtain r s1 where gas: "resolveGas env (attemptFactory memo (txf s)) msgs s = (r, s1)"
    by (cases "resolveGas env (attemptFactory memo (txf s)) msgs s")
  from gas obtain tr1 where
    tr1: "trace s1 = trace s @ tr1" "stage_trace tr1 1 0 [] ?q"
    "list_all node_ok tr1 \<longleftrightarrow> (\<exists>f'. r = Inr f')"
    by (rule resolveGas_trace) simp
  show thesis
  proof (cases r)
    case (Inl err)
    with gas run have o: "out = Inl (Wrapf ''failed to calculate gas'' err)" "s' = s1"
      by (simp_all add: broadcast_gas_error_retry)
    show thesis
    proof (rule that[of tr1 "[]"])
      show "trace s' = trace s @ tr1" using o tr1 by simp
      show "stage_trace tr1 1 1 [] ?q" using tr1(2) by (rule stage_trace_mono) simp_all
      show "txf s' = txf s" for e using o resolveGas_state(1)[OF gas] by simp
    qed (use o in simp_all)
  next
    case (Inr f)
    note gas = gas[unfolded Inr]
    have sf: "Sequence f = ?q" using resolveGas_state(3)[OF gas] by simp
    obtain r2 s2 where sub: "submit env f msgs s1 = (r2, s2)" by (cases "submit env f msgs s1")
    have t2: "txf s2 = txf s"
      using resolveGas_state(1)[OF gas] submit_state(1)[OF sub] by simp
    show thesis
    proof (cases r2)
      case (Inl e)
      note sub = sub[unfolded Inl]
      from broadcast_submit_error[of env memo s msgs True f s1 e s2] gas sub run
      have o: "out = Inl e" "s' = s2" by simp_all
      from sub obtain tr2 rs where
        tr2: "trace s2 = trace s1 @ tr2" "stage_trace tr2 0 1 rs ?q"
        "rs = [] \<or> (\<exists>err. rs = [Inl err])"
        by (rule submit_trace_Inl) (simp add: sf)
      show thesis
      proof (rule that[of "tr1 @ tr2" rs])
        show "trace s' = trace s @ tr1 @ tr2" using o tr1 tr2 by simp
        show "stage_trace (tr1 @ tr2) 1 1 rs ?q"
          using stage_trace_append[OF tr1(2) tr2(2)] by simp
        show "length rs \<le> 1" using tr2(3) by auto
        show "txf s' = txf s" for e using o t2 by simp
        show "Code resp \<noteq> 0 \<and>
           e' = (if Code resp = MempoolCacheCode env then ErrTxInMempoolCache
                else Errorf ''failed to broadcast tx'' (TxResponse_String env resp))"
          if "out = Inl e'" "rs = [Inr resp]" for e' resp
          using tr2(3) that by auto
      qed (use o in simp_all)
    next
      case (Inr resp)
      note sub = sub[unfolded Inr]
      from sub obtain tr2 where
        tr2: "trace s2 = trace s1 @ tr2" "stage_trace tr2 0 1 [Inr resp] ?q"
        "list_all node_ok tr2 \<longleftrightarrow> Code resp = 0"
        by (rule submit_trace_Inr) (simp add: sf)
      have tr: "trace s2 = trace s @ tr1 @ tr2" using tr1 tr2 by simp
      have st: "stage_trace (tr1 @ tr2) 1 1 [Inr resp] ?q"
        using stage_trace_append[OF tr1(2) tr2(2)] by simp
      show thesis
      proof (cases "Code resp = 0")
        case True
        from broadcast_accepted[of env memo s msgs True f s1 resp s2] gas sub run True
        have o: "out = Inr resp" "s' = s2\<lparr>txf := WithSequence (Sequence (txf s2) + 1) (txf s2)\<rparr>"
          by simp_all
        show thesis
        proof (rule that[of "tr1 @ tr2" "[Inr resp]"])
          show "trace s' = trace s @ tr1 @ tr2" using o tr by simp
          show "Sequence (txf s') = ?q + 1 \<and> [Inr resp] = [Inr resp'] \<and> Code resp' = 0 \<and>
                list_all node_ok (tr1 @ tr2)" if "out = Inr resp'" for resp'
            using that o t2 True tr1(3) tr2(3) \<open>r = Inr f\<close> by (simp add: WithSequence_def)
        qed (use o st in simp_all)
      next
        case False
        show thesis
        proof (cases "Code resp = MempoolCacheCode env")
          case True
          from broadcast_mempool[of env memo s msgs True f s1 resp s2] gas sub run True False
          have o: "out = Inl ErrTxInMempoolCache" "s' = s2" by simp_all
          show thesis
          proof (rule that[of "tr1 @ tr2" "[Inr resp]"])
            show "trace s' = trace s @ tr1 @ tr2" using o tr by simp
            show "txf s' = txf s" for e using o t2 by simp
          qed (use o st True False in simp_all)
        next
          case nm: False
          from broadcast_rejected_retry[of env memo s msgs f s1 resp s2] gas sub run nm False
          have o: "out = Inl (Errorf ''failed to broadcast tx'' (TxResponse_String env resp))"
            "s' = s2" by simp_all
          show thesis
          proof (rule that[of "tr1 @ tr2" "[Inr resp]"])
            show "trace s' = trace s @ tr1 @ tr2" using o tr by simp
            show "txf s' = txf s" for e using o t2 by simp
          qed (use o st nm False in simp_all)
        qed
      qed
    qed
  qed
qed

text \<open>
  The three ways a retry goes: its gas estimation fails; a stage before the submission
  fails; or it submits, and the node's answer decides.
\<close>

lemma retry_shape:
  assumes run: "broadcast env msgs memo True t = (out, t')"
  obtains (estimate) err where
      "trace t' = trace t @ [EvCalculateGas (attemptFactory memo (txf t)) (Inl err)]"
      "out = Inl (Wrapf ''failed to calculate gas'' err)" "txf t' = txf t"
  | (stage) pre f stage err tr where
      "trace t' = trace t @ pre @ EvBuildUnsignedTx f # tr" "sends pre = []" "sends tr = []"
      "\<And>f0 e. EvCalculateGas f0 (Inl e) \<notin> set pre"
      "out = Inl (Wrapf stage err)"
      "stage \<in> set [''failed to build tx'', ''failed to sign tx'', ''failed to encode tx'']"
      "txf t' = txf t"
  | (sent) pre f w0 b w where
      "trace t' = trace t @ pre @ [EvBuildUnsignedTx f, EvSign f, EvEncode,
                                   EvBroadcastTx b (fst (BroadcastTx env w b))]"
      "sends pre = []" "\<And>f0 e. EvCalculateGas f0 (Inl e) \<notin> set pre"
      "Sequence f = Sequence (txf t)"
      "signed_bytes env w0 f (FromName (ctx t)) msgs = Some (b, w)"
      "node t' = snd (BroadcastTx env w b)"
      "case fst (BroadcastTx env w b) of
         Inl err \<Rightarrow> out = Inl (Wrapf ''failed to broadcast tx'' err) \<and> txf t' = txf t
       | Inr resp \<Rightarrow>
           if Code resp = 0
           then out = Inr resp \<and> txf t' = WithSequence (Sequence (txf t) + 1) (txf t)
           else out = Inl (if MempoolCacheCode env = Code resp then ErrTxInMempoolCache
                           else Errorf ''failed to broadcast tx'' (TxResponse_String env resp)) \<and>
                txf t' = txf t"
proof -
  let ?f0 = "attemptFactory memo (txf t)"
  obtain r t1 where gas: "resolveGas env ?f0 msgs t = (r, t1)"
    by (cases "resolveGas env ?f0 msgs t")
  note gs = resolveGas_shape[OF gas]
  show thesis
  proof (cases r)
    case (Inl err)
    with gas run have o: "out = Inl (Wrapf ''failed to calculate gas'' err)" "t' = t1"
      by (simp_all add: broadcast_gas_error_retry)
    show thesis
    proof (rule estimate[of err])
      show "trace t' = trace t @ [EvCalculateGas ?f0 (Inl err)]" using gs Inl o by simp
      show "txf t' = txf t" using o resolveGas_state(1)[OF gas] by simp
    qed (rule o(1))
  next
    case (Inr f)
    note gas = gas[unfolded Inr]
    have sf: "Sequence f = Sequence (txf t)" using resolveGas_state(3)[OF gas] by simp
    have c1: "ctx t1 = ctx t" and x1: "txf t1 = txf t" using resolveGas_state[OF gas] by simp_all
    from gs Inr obtain pre where
      pre: "trace t1 = trace t @ pre" "sends pre = []" "\<And>f0 e. EvCalculateGas f0 (Inl e) \<notin> set pre"
      by auto
    obtain r2 t2 where sub: "submit env f msgs t1 = (r2, t2)" by (cases "submit env f msgs t1")
    note ss = submit_sent[OF sub, unfolded c1 x1]
    have b: "broadcast env msgs memo True t =
      (case r2 of Inl err \<Rightarrow> (Inl err, t2)
       | Inr resp \<Rightarrow>
               if Code resp \<noteq> 0
               then if MempoolCacheCode env = Code resp
                    then (Inl ErrTxInMempoolCache, t2)
                    else (Inl (Errorf ''failed to broadcast tx'' (TxResponse_String env resp)), t2)
               else (Inr resp, t2\<lparr>txf := WithSequence (Sequence (txf t2) + 1) (txf t2)\<rparr>))"
      using gas sub by (simp add: broadcast_True)
    show thesis
    proof (cases "signed_bytes env (node t1) f (FromName (ctx t)) msgs")
      case None
      with ss obtain stage err tr where
        st: "r2 = Inl (Wrapf stage err)"
        "stage \<in> set [''failed to build tx'', ''failed to sign tx'', ''failed to encode tx'']"
        "trace t2 = trace t1 @ EvBuildUnsignedTx f # tr" "sends tr = []"
        by auto
      from b run st(1) have o: "out = Inl (Wrapf stage err)" "t' = t2" by simp_all
      show thesis
      proof (rule stage[of pre f tr stage err])
        show "trace t' = trace t @ pre @ EvBuildUnsignedTx f # tr" using o st(3) pre(1) by simp
        show "txf t' = txf t" using o ss by simp
      qed (use pre st o in simp_all)
    next
      case (Some a)
      obtain bs w where a: "a = (bs, w)" by (cases a)
      note Some = Some[unfolded a]
      let ?q = "fst (BroadcastTx env w bs)"
      from ss Some have
        tr: "trace t2 = trace t1 @ [EvBuildUnsignedTx f, EvSign f, EvEncode, EvBroadcastTx bs ?q]"
        and nd: "node t2 = snd (BroadcastTx env w bs)"
        and r2: "r2 = (case ?q of Inl err \<Rightarrow> Inl (Wrapf ''failed to broadcast tx'' err)
                       | Inr resp \<Rightarrow> Inr resp)"
        and x2: "txf t2 = txf t"
        by simp_all
      show thesis
      proof (rule sent[of pre f bs w "node t1"])
        show "trace t' = trace t @ pre @ [EvBuildUnsignedTx f, EvSign f, EvEncode, EvBroadcastTx bs ?q]"
          using b run r2 tr pre(1) by (auto split: sum.splits if_splits)
        show "node t' = snd (BroadcastTx env w bs)"
          using b run r2 nd by (auto split: sum.splits if_splits)
        show "case ?q of
         Inl err \<Rightarrow> out = Inl (Wrapf ''failed to broadcast tx'' err) \<and> txf t' = txf t
       | Inr resp \<Rightarrow>
           if Code resp = 0
           then out = Inr resp \<and> txf t' = WithSequence (Sequence (txf t) + 1) (txf t)
           else out = Inl (if MempoolCacheCode env = Code resp then ErrTxInMempoolCache
                           else Errorf ''failed to broadcast tx'' (TxResponse_String env resp)) \<and>
                txf t' = txf t"
          using b run r2 x2 by (auto split: sum.splits if_splits)
      qed (use pre sf Some in simp_all)
    qed
  qed
qed

lemma retry_trace:
  assumes "broadcast env msgs memo True t = (out, t')"
  obtains tr where "trace t' = trace t @ tr"
  using assms by (rule retry_summary)

lemma retry_lock_free:
  assumes "broadcast env msgs memo True t = (out, t')"
  shows "lock_free (since t t')"
proof -
  from assms obtain tr rs where
    tr: "trace t' = trace t @ tr" "stage_trace tr 1 1 rs (Sequence (txf t))"
    by (rule retry_summary)
  from since_append[OF tr(1)] stage_trace_lock_free[OF tr(2)] show ?thesis by simp
qed

lemma retry_mempool:
  assumes run: "broadcast env msgs memo True t = (out, t')"
    and tr: "trace t' = trace t @ tr"
    and dup: "Inr resp \<in> set (sends tr)" "Code resp \<noteq> 0" "Code resp = MempoolCacheCode env"
  shows "out = Inl ErrTxInMempoolCache" "txf t' = txf t"
    "\<exists>pre b. tr = pre @ [EvBroadcastTx b (Inr resp)] \<and> sends pre = [] \<and>
       (\<forall>f0 e. EvCalculateGas f0 (Inl e) \<notin> set pre)"
    "attempts_at_most 1 tr"
proof -
  from run obtain tr0 rs where
    s: "trace t' = trace t @ tr0" "stage_trace tr0 1 1 rs (Sequence (txf t))" "length rs \<le> 1"
    by (rule retry_summary)
  from s(1) tr have e: "tr0 = tr" by simp
  show "attempts_at_most 1 tr"
    using stage_trace_attempts[OF s(2) _ _ s(3)] e by simp
  have "out = Inl ErrTxInMempoolCache \<and> txf t' = txf t \<and>
    (\<exists>pre b. tr = pre @ [EvBroadcastTx b (Inr resp)] \<and> sends pre = [] \<and>
       (\<forall>f0 e. EvCalculateGas f0 (Inl e) \<notin> set pre))"
    using run
  proof (cases rule: retry_shape)
    case (estimate err)
    from estimate(1) tr have "tr = [EvCalculateGas (attemptFactory memo (txf t)) (Inl err)]"
      by simp
    with dup(1) show ?thesis by simp
  next
    case (stage pre f stage err tr')
    from stage(1) tr have "tr = pre @ EvBuildUnsignedTx f # tr'" by simp
    with dup(1) stage(2,3) show ?thesis by simp
  next
    case (sent pre f w0 b w)
    from sent(1) tr have t: "tr = (pre @ [EvBuildUnsignedTx f, EvSign f, EvEncode]) @
        [EvBroadcastTx b (fst (BroadcastTx env w b))]" by simp
    with dup(1) sent(2) have q: "fst (BroadcastTx env w b) = Inr resp" by simp
    from sent(7) q dup(2,3) have "out = Inl ErrTxInMempoolCache" "txf t' = txf t" by simp_all
    moreover have "\<exists>pre b. tr = pre @ [EvBroadcastTx b (Inr resp)] \<and> sends pre = [] \<and>
       (\<forall>f0 e. EvCalculateGas f0 (Inl e) \<notin> set pre)"
      using t[unfolded q] sent(2,3)
      by (intro exI[of _ "pre @ [EvBuildUnsignedTx f, EvSign f, EvEncode]"] exI[of _ b]) simp
    ultimately show ?thesis by simp
  qed
  then show "out = Inl ErrTxInMempoolCache" "txf t' = txf t"
    "\<exists>pre b. tr = pre @ [EvBroadcastTx b (Inr resp)] \<and> sends pre = [] \<and>
       (\<forall>f0 e. EvCalculateGas f0 (Inl e) \<notin> set pre)"
    by simp_all
qed

subsection \<open>What a whole call leaves behind\<close>

lemma sends_stage_trace: "stage_trace tr e b rs q \<Longrightarrow> sends tr = rs"
  by (simp add: stage_trace_def)

lemma first_summary:
  assumes run: "broadcast env msgs memo False s = (out, s')"
  obtains tr where "trace s' = trace s @ tr" "attempts_at_most 2 tr"
    "\<exists>mid. tr = EvLock # mid @ [EvUnlock] \<and> lock_free mid"
    "list_all node_ok tr \<Longrightarrow>
       (case out of Inr resp \<Rightarrow> Sequence (txf s') = Sequence (txf s) + 1
                  | Inl e \<Rightarrow> txf s' = txf s)"
    "\<And>r1 resp. sends tr = [r1, Inr resp] \<Longrightarrow> Code resp \<noteq> 0 \<Longrightarrow>
       Code resp \<noteq> MempoolCacheCode env \<Longrightarrow>
       out = Inl (Errorf ''failed to broadcast tx'' (TxResponse_String env resp))"
proof -
  let ?q = "Sequence (txf s)"
  obtain r s1 where
    gas: "resolveGas env (attemptFactory memo (txf s)) msgs (emit EvLock s) = (r, s1)"
    by (cases "resolveGas env (attemptFactory memo (txf s)) msgs (emit EvLock s)")
  from gas obtain tr1 where
    tr1: "trace s1 = trace s @ EvLock # tr1" "stage_trace tr1 1 0 [] ?q"
    "list_all node_ok tr1 \<longleftrightarrow> (\<exists>f'. r = Inr f')"
    by (rule resolveGas_trace) simp
  show thesis
  proof (cases r)
    case (Inl err)
    obtain out3 s3 where
      re: "broadcast env msgs memo True (correctSequence (Error err) s1) = (out3, s3)"
      by (cases "broadcast env msgs memo True (correctSequence (Error err) s1)")
    with gas Inl run have o: "out = out3" "s' = emit EvUnlock s3"
      by (simp_all add: broadcast_gas_error_first)
    from re obtain tr3 rs3 where
      tr3: "trace s3 = trace s1 @ tr3"
      "stage_trace tr3 1 1 rs3 (Sequence (txf (correctSequence (Error err) s1)))"
      "length rs3 \<le> 1"
      by (rule retry_summary) simp
    let ?tr = "EvLock # tr1 @ tr3 @ [EvUnlock]"
    have a1: "attempts_at_most 1 tr1" using tr1(2) by (rule stage_trace_attempts) simp_all
    have a3: "attempts_at_most 1 tr3"
      by (rule stage_trace_attempts[OF tr3(2) _ _ tr3(3)]) simp_all
    have sn: "sends ?tr = rs3"
      using sends_stage_trace[OF tr1(2)] sends_stage_trace[OF tr3(2)] by simp
    show thesis
    proof (rule that[of ?tr])
      show "trace s' = trace s @ ?tr" using o tr1 tr3 by simp
      show "attempts_at_most 2 ?tr" using a1 a3 by (auto simp: attempts_at_most_def)
      show "\<exists>mid. ?tr = EvLock # mid @ [EvUnlock] \<and> lock_free mid"
        using stage_trace_lock_free[OF tr1(2)] stage_trace_lock_free[OF tr3(2)]
        by (intro exI[of _ "tr1 @ tr3"]) simp
      show "case out of Inr resp \<Rightarrow> Sequence (txf s') = ?q + 1 | Inl e \<Rightarrow> txf s' = txf s"
        if "list_all node_ok ?tr"
        using that tr1(3) Inl by simp
      show "out = Inl (Errorf ''failed to broadcast tx'' (TxResponse_String env resp))"
        if "sends ?tr = [r1, Inr resp]" for r1 resp
        using that sn tr3(3) by (simp del: sends_simps)
    qed
  next
    case (Inr f)
    note gas = gas[unfolded Inr]
    have sf: "Sequence f = ?q" using resolveGas_state(3)[OF gas] by simp
    have ok1: "list_all node_ok tr1" using tr1(3) Inr by simp
    obtain r2 s2 where sub: "submit env f msgs s1 = (r2, s2)" by (cases "submit env f msgs s1")
    have t2: "txf s2 = txf s"
      using resolveGas_state(1)[OF gas] submit_state(1)[OF sub] by simp
    show thesis
    proof (cases r2)
      case (Inl e)
      note sub = sub[unfolded Inl]
      from broadcast_submit_error[of env memo s msgs False f s1 e s2] gas sub run
      have o: "out = Inl e" "s' = emit EvUnlock s2" by simp_all
      from sub obtain tr2 rs where
        tr2: "trace s2 = trace s1 @ tr2" "stage_trace tr2 0 1 rs ?q"
        "rs = [] \<or> (\<exists>err. rs = [Inl err])"
        by (rule submit_trace_Inl) (simp add: sf)
      let ?tr = "EvLock # tr1 @ tr2 @ [EvUnlock]"
      have st: "stage_trace (tr1 @ tr2) 1 1 rs ?q"
        using stage_trace_append[OF tr1(2) tr2(2)] by simp
      have len: "length rs \<le> 1" using tr2(3) by auto
      have sn: "sends ?tr = rs" using sends_stage_trace[OF st] by simp
      show thesis
      proof (rule that[of ?tr])
        show "trace s' = trace s @ ?tr" using o tr1 tr2 by simp
        show "attempts_at_most 2 ?tr"
          using st len by (auto simp: attempts_at_most_def stage_trace_def)
        show "\<exists>mid. ?tr = EvLock # mid @ [EvUnlock] \<and> lock_free mid"
          using stage_trace_lock_free[OF st] by (intro exI[of _ "tr1 @ tr2"]) simp
        show "case out of Inr resp \<Rightarrow> Sequence (txf s') = ?q + 1 | Inl e \<Rightarrow> txf s' = txf s"
          using o t2 by simp
        show "out = Inl (Errorf ''failed to broadcast tx'' (TxResponse_String env resp))"
          if "sends ?tr = [r1, Inr resp]" for r1 resp
          using that sn len by (simp del: sends_simps)
      qed
    next
      case (Inr resp)
      note sub = sub[unfolded Inr]
      from sub obtain tr2 where
        tr2: "trace s2 = trace s1 @ tr2" "stage_trace tr2 0 1 [Inr resp] ?q"
        "list_all node_ok tr2 \<longleftrightarrow> Code resp = 0"
        by (rule submit_trace_Inr) (simp add: sf)
      have tr: "trace s2 = trace s @ EvLock # tr1 @ tr2" using tr1 tr2 by simp
      have st: "stage_trace (tr1 @ tr2) 1 1 [Inr resp] ?q"
        using stage_trace_append[OF tr1(2) tr2(2)] by simp
      have a12: "attempts_at_most 1 (tr1 @ tr2)" using st by (rule stage_trace_attempts) simp_all
      let ?tr = "EvLock # tr1 @ tr2 @ [EvUnlock]"
      have sn: "sends ?tr = [Inr resp]" using sends_stage_trace[OF st] by simp
      have a: "attempts_at_most 2 ?tr" using a12 by (auto simp: attempts_at_most_def)
      have lk: "\<exists>mid. ?tr = EvLock # mid @ [EvUnlock] \<and> lock_free mid"
        using stage_trace_lock_free[OF st] by (intro exI[of _ "tr1 @ tr2"]) simp
      show thesis
      proof (cases "Code resp = 0")
        case True
        from broadcast_accepted[of env memo s msgs False f s1 resp s2] gas sub run True
        have o: "out = Inr resp"
          "s' = emit EvUnlock (s2\<lparr>txf := WithSequence (Sequence (txf s2) + 1) (txf s2)\<rparr>)"
          by simp_all
        show thesis
        proof (rule that[of ?tr])
          show "trace s' = trace s @ ?tr" using o tr by simp
          show "case out of Inr resp \<Rightarrow> Sequence (txf s') = ?q + 1 | Inl e \<Rightarrow> txf s' = txf s"
            using o t2 by (simp add: WithSequence_def)
          show "out = Inl (Errorf ''failed to broadcast tx'' (TxResponse_String env resp'))"
            if "sends ?tr = [r1, Inr resp']" for r1 resp'
            using that sn by (simp del: sends_simps)
        qed (rule a, rule lk)
      next
        case False
        show thesis
        proof (cases "Code resp = MempoolCacheCode env")
          case True
          from broadcast_mempool[of env memo s msgs False f s1 resp s2] gas sub run True False
          have o: "out = Inl ErrTxInMempoolCache" "s' = emit EvUnlock s2" by simp_all
          show thesis
          proof (rule that[of ?tr])
            show "trace s' = trace s @ ?tr" using o tr by simp
            show "case out of Inr resp \<Rightarrow> Sequence (txf s') = ?q + 1 | Inl e \<Rightarrow> txf s' = txf s"
              using o t2 by simp
            show "out = Inl (Errorf ''failed to broadcast tx'' (TxResponse_String env resp'))"
              if "sends ?tr = [r1, Inr resp']" for r1 resp'
              using that sn by (simp del: sends_simps)
          qed (rule a, rule lk)
        next
          case nm: False
          obtain out3 s3 where
            re: "broadcast env msgs memo True (correctSequence (RawLog resp) s2) = (out3, s3)"
            by (cases "broadcast env msgs memo True (correctSequence (RawLog resp) s2)")
          from broadcast_rejected_first[of env memo s msgs f s1 resp s2] gas sub run nm False re
          have o: "out = out3" "s' = emit EvUnlock s3" by simp_all
          from re obtain tr3 rs3 where
            tr3: "trace s3 = trace s2 @ tr3"
            "stage_trace tr3 1 1 rs3 (Sequence (txf (correctSequence (RawLog resp) s2)))"
            "length rs3 \<le> 1"
            "\<And>resp'. out3 = Inr resp' \<Longrightarrow> rs3 = [Inr resp'] \<and> Code resp' = 0"
            "\<And>e resp'. out3 = Inl e \<Longrightarrow> rs3 = [Inr resp'] \<Longrightarrow> Code resp' \<noteq> 0 \<and>
               e = (if Code resp' = MempoolCacheCode env then ErrTxInMempoolCache
                    else Errorf ''failed to broadcast tx'' (TxResponse_String env resp'))"
            by (rule retry_summary) simp
          let ?tr = "EvLock # (tr1 @ tr2) @ tr3 @ [EvUnlock]"
          have a3: "attempts_at_most 1 tr3"
            by (rule stage_trace_attempts[OF tr3(2) _ _ tr3(3)]) simp_all
          have sn: "sends ?tr = Inr resp # rs3"
            using sends_stage_trace[OF st] sends_stage_trace[OF tr3(2)] by simp
          show thesis
          proof (rule that[of ?tr])
            show "trace s' = trace s @ ?tr" using o tr tr3 by simp
            show "attempts_at_most 2 ?tr" using a12 a3 by (auto simp: attempts_at_most_def)
            show "\<exists>mid. ?tr = EvLock # mid @ [EvUnlock] \<and> lock_free mid"
              using stage_trace_lock_free[OF st] stage_trace_lock_free[OF tr3(2)]
              by (intro exI[of _ "(tr1 @ tr2) @ tr3"]) simp
            show "case out of Inr resp \<Rightarrow> Sequence (txf s') = ?q + 1 | Inl e \<Rightarrow> txf s' = txf s"
              if "list_all node_ok ?tr"
              using that tr2(3) False by simp
            show "out = Inl (Errorf ''failed to broadcast tx'' (TxResponse_String env resp'))"
              if h: "sends ?tr = [r1, Inr resp']" "Code resp' \<noteq> 0"
                "Code resp' \<noteq> MempoolCacheCode env" for r1 resp'
            proof -
              from h(1) sn have s3: "rs3 = [Inr resp']" by (simp del: sends_simps)
              show ?thesis
              proof (cases out3)
                case (Inl e)
                from tr3(5)[OF Inl s3] h(3) o(1) Inl show ?thesis by simp
              next
                case (Inr ra)
                from tr3(4)[OF Inr] s3 h(2) show ?thesis by simp
              qed
            qed
          qed
        qed
      qed
    qed
  qed
qed

text \<open>
  The three ways a first entry goes: its one attempt ends the call, and it is what the
  retry entry would do under the lock; or the gas estimation fails and the retry follows;
  or the node rejects the transaction with a code other than the mempool-cache code and
  the retry follows.
\<close>

lemma first_cases:
  assumes run: "broadcast env msgs memo False s = (out, s')"
  obtains (single) s3 where
      "broadcast env msgs memo True (emit EvLock s) = (out, s3)" "s' = emit EvUnlock s3"
  | (gas_retry) err s1 s3 where
      "trace s1 = trace s @ [EvLock, EvCalculateGas (attemptFactory memo (txf s)) (Inl err)]"
      "txf s1 = txf s" "ctx s1 = ctx s"
      "broadcast env msgs memo True (correctSequence (Error err) s1) = (out, s3)"
      "s' = emit EvUnlock s3"
  | (rejected_retry) pre f b resp s2 s3 where
      "trace s2 = trace s @ EvLock # pre @
         [EvBuildUnsignedTx f, EvSign f, EvEncode, EvBroadcastTx b (Inr resp)]"
      "sends pre = []" "\<And>f0 e. EvCalculateGas f0 (Inl e) \<notin> set pre"
      "txf s2 = txf s" "ctx s2 = ctx s"
      "Code resp \<noteq> 0" "Code resp \<noteq> MempoolCacheCode env"
      "broadcast env msgs memo True (correctSequence (RawLog resp) s2) = (out, s3)"
      "s' = emit EvUnlock s3"
proof -
  let ?f0 = "attemptFactory memo (txf s)"
  obtain r s1 where gas: "resolveGas env ?f0 msgs (emit EvLock s) = (r, s1)"
    by (cases "resolveGas env ?f0 msgs (emit EvLock s)")
  note gs = resolveGas_shape[OF gas]
  have x1: "txf s1 = txf s" and c1: "ctx s1 = ctx s" using resolveGas_state(1,2)[OF gas] by simp_all
  show thesis
  proof (cases r)
    case (Inl err)
    obtain out3 s3 where
      re: "broadcast env msgs memo True (correctSequence (Error err) s1) = (out3, s3)"
      by (cases "broadcast env msgs memo True (correctSequence (Error err) s1)")
    with gas Inl run have o: "out = out3" "s' = emit EvUnlock s3"
      by (simp_all add: broadcast_gas_error_first)
    show thesis
    proof (rule gas_retry[of s1 err s3])
      show "trace s1 = trace s @ [EvLock, EvCalculateGas ?f0 (Inl err)]" using gs Inl by simp
    qed (use x1 c1 re o in simp_all)
  next
    case (Inr f)
    note gas = gas[unfolded Inr]
    from gs Inr obtain pre where
      pre: "trace s1 = trace s @ EvLock # pre" "sends pre = []"
        "\<And>f0 e. EvCalculateGas f0 (Inl e) \<notin> set pre"
      by auto
    obtain r2 s2 where sub: "submit env f msgs s1 = (r2, s2)" by (cases "submit env f msgs s1")
    note ss = submit_sent[OF sub]
    have gas': "resolveGas env (attemptFactory memo (txf (emit EvLock s))) msgs (emit EvLock s) =
                (Inr f, s1)"
      using gas by simp
    show thesis
    proof (cases "\<exists>resp. r2 = Inr resp \<and> Code resp \<noteq> 0 \<and> Code resp \<noteq> MempoolCacheCode env")
      case False
      obtain out3 s3 where re: "broadcast env msgs memo True (emit EvLock s) = (out3, s3)"
        by (cases "broadcast env msgs memo True (emit EvLock s)")
      have "out = out3 \<and> s' = emit EvUnlock s3"
        using False run re gas gas' sub
        by (cases r2) (auto simp: broadcast_True broadcast_False split: if_splits)
      with re show thesis by (intro single[of s3]) simp_all
    next
      case True
      then obtain resp where r2: "r2 = Inr resp" and code: "Code resp \<noteq> 0"
        "Code resp \<noteq> MempoolCacheCode env" by blast
      note sub = sub[unfolded r2]
      obtain out3 s3 where
        re: "broadcast env msgs memo True (correctSequence (RawLog resp) s2) = (out3, s3)"
        by (cases "broadcast env msgs memo True (correctSequence (RawLog resp) s2)")
      from broadcast_rejected_first[OF gas sub code] run re
      have o: "out = out3" "s' = emit EvUnlock s3" by simp_all
      have "\<exists>b. trace s2 =
              trace s1 @ [EvBuildUnsignedTx f, EvSign f, EvEncode, EvBroadcastTx b (Inr resp)]"
      proof (cases "signed_bytes env (node s1) f (FromName (ctx s1)) msgs")
        case None
        with ss r2 show ?thesis by auto
      next
        case (Some a)
        obtain bs w where "a = (bs, w)" by (cases a)
        with ss Some r2 show ?thesis by (cases "fst (BroadcastTx env w bs)") auto
      qed
      then obtain b where
        tr: "trace s2 = trace s1 @ [EvBuildUnsignedTx f, EvSign f, EvEncode, EvBroadcastTx b (Inr resp)]"
        by blast
      show thesis
      proof (rule rejected_retry[of s2 pre f b resp s3])
        show "trace s2 = trace s @ EvLock # pre @
           [EvBuildUnsignedTx f, EvSign f, EvEncode, EvBroadcastTx b (Inr resp)]"
          using tr pre(1) by simp
        show "txf s2 = txf s" using ss x1 by simp
        show "ctx s2 = ctx s" using ss c1 by simp
      qed (use pre code re o in simp_all)
    qed
  qed
qed

text \<open>
  One call of \<open>Broadcast\<close> takes the mutex first, releases it last and leaves it
  alone in between: the retry runs under the lock its caller took.
\<close>

lemma lock_held_throughout:
  assumes "Broadcast env msgs memo s = (out, s')"
  shows "\<exists>mid. since s s' = EvLock # mid @ [EvUnlock] \<and> lock_free mid"
proof -
  obtain out0 where b: "broadcast env msgs memo False s = (out0, s')"
    using assms by (auto simp: Broadcast_def split: prod.splits sum.splits)
  from b obtain tr where
    tr: "trace s' = trace s @ tr" "\<exists>mid. tr = EvLock # mid @ [EvUnlock] \<and> lock_free mid"
    by (rule first_summary) blast
  from since_append[OF tr(1)] tr(2) show ?thesis by simp
qed

subsection \<open>Mutual exclusion\<close>

lemma mutex_run_other:
  "e \<noteq> EvLock \<Longrightarrow> e \<noteq> EvUnlock \<Longrightarrow> mutex_run locked ((c, e) # m) = mutex_run locked m"
  by (cases e) simp_all

lemma steps_of_simps [simp]:
  "steps_of c [] = []"
  "steps_of c ((d, e) # m) = (if d = c then e # steps_of c m else steps_of c m)"
  "steps_of c (m @ m') = steps_of c m @ steps_of c m'"
  by (simp_all add: steps_of_def)

lemma steps_of_by_caller [simp]:
  "steps_of c (by_caller d tr) = (if d = c then tr else [])"
  by (induction tr) (auto simp: by_caller_def)

lemma by_caller_simps [simp]:
  "by_caller c [] = []" "by_caller c (e # tr) = (c, e) # by_caller c tr"
  "by_caller c (tr @ tr') = by_caller c tr @ by_caller c tr'"
  by (simp_all add: by_caller_def)

lemma only_caller:
  "list_all (\<lambda>p. fst p = a \<or> fst p = b) m \<Longrightarrow> a \<noteq> b \<Longrightarrow> steps_of a m = [] \<Longrightarrow>
   m = by_caller b (steps_of b m)"
  by (induction m) (auto split: if_splits)

text \<open>
  A run in which the mutex is held, one caller has its critical section still to finish
  and the other has not locked yet: the rest of the critical section comes first, without
  a step of the other caller in between.
\<close>

lemma critical_section:
  assumes "mutex_run True m" "list_all (\<lambda>p. fst p = a \<or> fst p = b) m" "a \<noteq> b"
    and "steps_of a m = mid @ [EvUnlock]" "lock_free mid"
    and "steps_of b m = [] \<or> hd (steps_of b m) = EvLock"
  shows "\<exists>rest. m = by_caller a (mid @ [EvUnlock]) @ rest \<and> steps_of a rest = [] \<and>
           mutex_run False rest"
  using assms
proof (induction m arbitrary: mid)
  case Nil
  then show ?case by simp
next
  case (Cons p m)
  obtain c e where p: "p = (c, e)" by (cases p)
  show ?case
  proof (cases "c = a")
    case True
    show ?thesis
    proof (cases mid)
      case Nil
      with Cons.prems p True have "e = EvUnlock" "steps_of a m = []" "mutex_run False m"
        by simp_all
      with p True Nil show ?thesis by simp
    next
      case (Cons e' mid')
      with Cons.prems p True have e: "e = e'" "steps_of a m = mid' @ [EvUnlock]"
        "lock_free mid'" "e \<noteq> EvLock" "e \<noteq> EvUnlock"
        by (auto simp: lock_free_def)
      from Cons.prems(1) p e(4,5) have mr: "mutex_run True m" by (simp add: mutex_run_other)
      from Cons.prems(2) have la: "list_all (\<lambda>p. fst p = a \<or> fst p = b) m" by simp
      from Cons.prems(6) p True \<open>a \<noteq> b\<close>
      have hb: "steps_of b m = [] \<or> hd (steps_of b m) = EvLock" by simp
      from Cons.IH[OF mr la \<open>a \<noteq> b\<close> e(2,3) hb] obtain rest where
        "m = by_caller a (mid' @ [EvUnlock]) @ rest" "steps_of a rest = []" "mutex_run False rest"
        by blast
      with p True Cons e(1) show ?thesis by simp
    qed
  next
    case False
    with Cons.prems(2) p have cb: "c = b" by simp
    with Cons.prems(6) p have "e = EvLock" by simp
    with Cons.prems(1) p show ?thesis by simp
  qed
qed

lemma two_calls_serial:
  assumes ab: "a \<noteq> b" and tags: "list_all (\<lambda>p. fst p = a \<or> fst p = b) m"
    and pa: "steps_of a m = EvLock # mid1 @ [EvUnlock]" "lock_free mid1"
    and pb: "steps_of b m = EvLock # mid2 @ [EvUnlock]" "lock_free mid2"
    and mx: "mutex_run False m"
  shows "m = by_caller a (steps_of a m) @ by_caller b (steps_of b m) \<or>
         m = by_caller b (steps_of b m) @ by_caller a (steps_of a m)"
proof (cases m)
  case Nil
  with pa show ?thesis by simp
next
  case (Cons p m')
  obtain c e where p: "p = (c, e)" by (cases p)
  from tags Cons have la: "list_all (\<lambda>p. fst p = a \<or> fst p = b) m'" by simp
  have la': "list_all (\<lambda>p. fst p = b \<or> fst p = a) m'"
    using la by (simp add: list_all_iff) blast
  show ?thesis
  proof (cases "c = a")
    case True
    from pa(1) pb(1) Cons p True ab have e: "e = EvLock" "steps_of a m' = mid1 @ [EvUnlock]"
      "steps_of b m' = EvLock # mid2 @ [EvUnlock]" by simp_all
    from mx Cons p e(1) have mr: "mutex_run True m'" by simp
    from critical_section[OF mr la ab e(2) pa(2)] e(3) obtain rest where
      r: "m' = by_caller a (mid1 @ [EvUnlock]) @ rest" "steps_of a rest = []"
      by auto
    from la r(1) have "list_all (\<lambda>p. fst p = a \<or> fst p = b) rest" by simp
    from only_caller[OF this ab r(2)] have rb: "rest = by_caller b (steps_of b rest)" .
    from r(1) ab have "steps_of b m' = steps_of b rest" by simp
    with rb r(1) e Cons p True pa(1) pb(1) ab
    have "m = by_caller a (steps_of a m) @ by_caller b (steps_of b m)" by simp
    then show ?thesis by (rule disjI1)
  next
    case False
    with tags Cons p have cb: "c = b" by simp
    from pa(1) pb(1) Cons p cb ab have e: "e = EvLock" "steps_of b m' = mid2 @ [EvUnlock]"
      "steps_of a m' = EvLock # mid1 @ [EvUnlock]" by simp_all
    from mx Cons p e(1) have mr: "mutex_run True m'" by simp
    from critical_section[OF mr la' ab[symmetric] e(2) pb(2)] e(3) obtain rest where
      r: "m' = by_caller b (mid2 @ [EvUnlock]) @ rest" "steps_of b rest = []"
      by auto
    from la' r(1) have "list_all (\<lambda>p. fst p = b \<or> fst p = a) rest" by simp
    from only_caller[OF this ab[symmetric] r(2)] have rb: "rest = by_caller a (steps_of a rest)" .
    from r(1) ab have "steps_of a m' = steps_of a rest" by simp
    with rb r(1) e Cons p cb pa(1) pb(1) ab
    have "m = by_caller b (steps_of b m) @ by_caller a (steps_of a m)" by simp
    then show ?thesis by (rule disjI2)
  qed
qed

text \<open>
  C9. Two calls of \<open>Broadcast\<close> on one instance by two callers, each taking its steps
  in its own order, merged into one run in any way the mutex allows: the run is one call
  from its first step to its last, then the other; no step of one call, be it a gas
  estimation, a build, a signature or a submission, falls between two steps of the other.
  The reason is in the call itself: it locks first, unlocks last and leaves the mutex
  alone in between, and the retry entry never touches the mutex, so the retry runs under
  the lock of the first entry.
\<close>

theorem concurrent_calls_serialized:
  assumes c1: "Broadcast env msgs1 memo1 s1 = (out1, s1')"
    and c2: "Broadcast env msgs2 memo2 s2 = (out2, s2')"
    and ab: "a \<noteq> b" and tags: "list_all (\<lambda>p. fst p = a \<or> fst p = b) m"
    and p1: "steps_of a m = since s1 s1'" and p2: "steps_of b m = since s2 s2'"
    and mx: "mutex_run False m"
  shows "(m = by_caller a (since s1 s1') @ by_caller b (since s2 s2') \<or>
          m = by_caller b (since s2 s2') @ by_caller a (since s1 s1')) \<and>
         (\<exists>mid. since s1 s1' = EvLock # mid @ [EvUnlock] \<and> lock_free mid) \<and>
         (broadcast env msgs memo True t = (out, t') \<longrightarrow> lock_free (since t t'))"
proof -
  from lock_held_throughout[OF c1] obtain mid1 where
    m1: "since s1 s1' = EvLock # mid1 @ [EvUnlock]" "lock_free mid1" by blast
  from lock_held_throughout[OF c2] obtain mid2 where
    m2: "since s2 s2' = EvLock # mid2 @ [EvUnlock]" "lock_free mid2" by blast
  from two_calls_serial[OF ab tags p1[unfolded m1(1)] m1(2) p2[unfolded m2(1)] m2(2) mx]
  have "m = by_caller a (since s1 s1') @ by_caller b (since s2 s2') \<or>
          m = by_caller b (since s2 s2') @ by_caller a (since s1 s1')"
    unfolding p1 p2 .
  moreover have "\<exists>mid. since s1 s1' = EvLock # mid @ [EvUnlock] \<and> lock_free mid"
    using m1 by blast
  moreover have "broadcast env msgs memo True t = (out, t') \<longrightarrow> lock_free (since t t')"
    using retry_lock_free by blast
  ultimately show ?thesis by (intro conjI)
qed

theorem concurrent_calls_serialized_witness:
  "mutex_run False two_calls \<and>
   steps_of 0 two_calls =
     since (ex_state 200000)
       (snd (Broadcast (ex_env (\<lambda>i. Inr 1) (\<lambda>j. Inr accepted)) [''a''] ''m1'' (ex_state 200000))) \<and>
   steps_of (Suc 0) two_calls =
     since (snd (Broadcast (ex_env (\<lambda>i. Inr 1) (\<lambda>j. Inr accepted)) [''a''] ''m1'' (ex_state 200000)))
       (snd (Broadcast (ex_env (\<lambda>i. Inr 1) (\<lambda>j. Inr accepted)) [''b''] ''m2''
          (snd (Broadcast (ex_env (\<lambda>i. Inr 1) (\<lambda>j. Inr accepted)) [''a''] ''m1''
             (ex_state 200000))))) \<and>
   two_calls =
     by_caller 0
       (since (ex_state 200000)
          (snd (Broadcast (ex_env (\<lambda>i. Inr 1) (\<lambda>j. Inr accepted)) [''a''] ''m1''
             (ex_state 200000)))) @
     by_caller (Suc 0)
       (since (snd (Broadcast (ex_env (\<lambda>i. Inr 1) (\<lambda>j. Inr accepted)) [''a''] ''m1''
                (ex_state 200000)))
          (snd (Broadcast (ex_env (\<lambda>i. Inr 1) (\<lambda>j. Inr accepted)) [''b''] ''m2''
             (snd (Broadcast (ex_env (\<lambda>i. Inr 1) (\<lambda>j. Inr accepted)) [''a''] ''m1''
                (ex_state 200000))))))"
proof -
  let ?E = "ex_env (\<lambda>i. Inr 1) (\<lambda>j. Inr accepted)"
  let ?S = "ex_state 200000"
  let ?B1 = "Broadcast ?E [''a''] ''m1'' ?S"
  let ?B2 = "Broadcast ?E [''b''] ''m2'' (snd ?B1)"
  have c1: "?B1 = (fst ?B1, snd ?B1)" by simp
  have c2: "?B2 = (fst ?B2, snd ?B2)" by simp
  have ab: "(0 :: nat) \<noteq> Suc 0" by simp
  have tags: "list_all (\<lambda>p. fst p = (0 :: nat) \<or> fst p = Suc 0) two_calls" by code_simp
  have p1: "steps_of 0 two_calls = since ?S (snd ?B1)" by code_simp
  have p2: "steps_of (Suc 0) two_calls = since (snd ?B1) (snd ?B2)" by code_simp
  have mx: "mutex_run False two_calls" by code_simp
  note t = conjunct1[OF concurrent_calls_serialized[OF c1 c2 ab tags p1 p2 mx]]
  have "two_calls \<noteq> by_caller (Suc 0) (since (snd ?B1) (snd ?B2)) @ by_caller 0 (since ?S (snd ?B1))"
    unfolding p1[symmetric] p2[symmetric] by code_simp
  with t have "two_calls =
      by_caller 0 (since ?S (snd ?B1)) @ by_caller (Suc 0) (since (snd ?B1) (snd ?B2))"
    by blast
  with mx p1 p2 show ?thesis by (intro conjI)
qed

subsection \<open>The mempool-cache code\<close>

text \<open>
  C6, as stated, fails when the mempool-cache code answers the retry: the call returns
  the sentinel, but it has retried, after the first response asked for sequence 9, and
  the local sequence has gone from 5 to 9.
\<close>

theorem mempool_code_after_correction:
  "fst (Broadcast (ex_env (\<lambda>i. Inr 1) (\<lambda>j. if j = 0 then Inr wrong_sequence else Inr duplicate))
          [''send''] ''memo'' (ex_state 200000)) =
     Inl (Wrapf ''failed to broadcast'' ErrTxInMempoolCache) \<and>
   sends (trace (snd (Broadcast
          (ex_env (\<lambda>i. Inr 1) (\<lambda>j. if j = 0 then Inr wrong_sequence else Inr duplicate))
          [''send''] ''memo'' (ex_state 200000)))) = [Inr wrong_sequence, Inr duplicate] \<and>
   Code duplicate =
     MempoolCacheCode (ex_env (\<lambda>i. Inr 1) (\<lambda>j. if j = 0 then Inr wrong_sequence else Inr duplicate)) \<and>
   Sequence (txf (ex_state 200000)) = 5 \<and>
   Sequence (txf (snd (Broadcast
          (ex_env (\<lambda>i. Inr 1) (\<lambda>j. if j = 0 then Inr wrong_sequence else Inr duplicate))
          [''send''] ''memo'' (ex_state 200000)))) = 9"
  by code_simp

text \<open>
  C6, amended. When a submission of a call of \<open>Broadcast\<close> is answered with the
  mempool-cache code, the call returns the sentinel \<open>ErrTxInMempoolCache\<close>, wrapped
  once so that \<^verbatim>\<open>errors.Is\<close> finds it, and not an error built from the
  response; that submission is the last step of the call before the mutex is released, so
  no retry follows it; and the attempt that received the answer leaves the local factory
  alone. If it is the first attempt (the only submission, no failed gas estimation), the
  call has made one attempt and the factory, with its sequence, is the one before the
  call. If it is the retry, the factory is the one the correction before the retry left:
  corrected from the text of the failed gas estimation, or from the log of the first
  response.
\<close>

theorem mempool_cache_sentinel:
  assumes run: "Broadcast env msgs memo s = (out, s')"
    and dup: "Inr resp \<in> set (sends (since s s'))"
    and code: "Code resp \<noteq> 0" "Code resp = MempoolCacheCode env"
  shows "out = Inl (Wrapf ''failed to broadcast'' ErrTxInMempoolCache) \<and>
         errors_Is (Wrapf ''failed to broadcast'' ErrTxInMempoolCache) ErrTxInMempoolCache \<and>
         (\<exists>pre b. since s s' = pre @ [EvBroadcastTx b (Inr resp), EvUnlock]) \<and>
         (sends (since s s') = [Inr resp] \<or>
          (\<exists>resp1. sends (since s s') = [Inr resp1, Inr resp])) \<and>
         (sends (since s s') = [Inr resp] \<and>
          (\<forall>f err. EvCalculateGas f (Inl err) \<notin> set (since s s')) \<longrightarrow>
            txf s' = txf s \<and> attempts_at_most 1 (since s s')) \<and>
         (\<forall>f err. EvCalculateGas f (Inl err) \<in> set (since s s') \<longrightarrow>
            txf s' = txf (correctSequence (Error err) s)) \<and>
         (\<forall>resp1. sends (since s s') = [Inr resp1, Inr resp] \<longrightarrow>
            txf s' = txf (correctSequence (RawLog resp1) s))"
proof -
  obtain out0 where b: "broadcast env msgs memo False s = (out0, s')"
    and o: "out = (case out0 of Inl err \<Rightarrow> Inl (Wrapf ''failed to broadcast'' err) | Inr r \<Rightarrow> Inr r)"
    using run by (auto simp: Broadcast_def split: prod.splits sum.splits)
  let ?c2 = "\<exists>pre b. since s s' = pre @ [EvBroadcastTx b (Inr resp), EvUnlock]"
  let ?c3 = "sends (since s s') = [Inr resp] \<or>
          (\<exists>resp1. sends (since s s') = [Inr resp1, Inr resp])"
  let ?c4 = "sends (since s s') = [Inr resp] \<and>
          (\<forall>f err. EvCalculateGas f (Inl err) \<notin> set (since s s')) \<longrightarrow>
            txf s' = txf s \<and> attempts_at_most 1 (since s s')"
  let ?c5 = "\<forall>f err. EvCalculateGas f (Inl err) \<in> set (since s s') \<longrightarrow>
            txf s' = txf (correctSequence (Error err) s)"
  let ?c6 = "\<forall>resp1. sends (since s s') = [Inr resp1, Inr resp] \<longrightarrow>
            txf s' = txf (correctSequence (RawLog resp1) s)"
  have "out0 = Inl ErrTxInMempoolCache \<and> ?c2 \<and> ?c3 \<and> ?c4 \<and> ?c5 \<and> ?c6"
    using b
  proof (cases rule: first_cases)
    case (single s3)
    from single(1) obtain tr where tr: "trace s3 = trace (emit EvLock s) @ tr"
      by (rule retry_trace)
    have sn: "since s s' = EvLock # tr @ [EvUnlock]"
      using single(2) tr by (intro since_append) simp
    from dup sn have d: "Inr resp \<in> set (sends tr)" by simp
    note m = retry_mempool[OF single(1) tr d code]
    from m(3) obtain pre b where
      p: "tr = pre @ [EvBroadcastTx b (Inr resp)]" "sends pre = []"
        "\<forall>f0 e. EvCalculateGas f0 (Inl e) \<notin> set pre"
      by blast
    have x: "txf s' = txf s" using m(2) single(2) by simp
    have a1: "attempts_at_most 1 (since s s')"
      using m(4) unfolding sn by (auto simp: attempts_at_most_def)
    have ss: "sends (since s s') = [Inr resp]" unfolding sn p(1) using p(2) by simp
    have ne: "EvCalculateGas f (Inl e) \<notin> set (since s s')" for f e
      unfolding sn p(1) using p(3) by simp
    have c2: ?c2
      unfolding sn p(1) by (intro exI[of _ "EvLock # pre"] exI[of _ b]) simp
    have c3: ?c3 using ss by (rule disjI1)
    have c4: ?c4 using x a1 by simp
    have c5: ?c5 using ne by simp
    have c6: ?c6 unfolding ss by simp
    show ?thesis by (intro conjI m(1) c2 c3 c4 c5 c6)
  next
    case (gas_retry err s1 s3)
    let ?t = "correctSequence (Error err) s1"
    let ?f0 = "attemptFactory memo (txf s)"
    from gas_retry(4) obtain tr where tr: "trace s3 = trace ?t @ tr"
      by (rule retry_trace)
    have sn: "since s s' = [EvLock, EvCalculateGas ?f0 (Inl err)] @ tr @ [EvUnlock]"
      using gas_retry(1,5) tr by (intro since_append) simp
    from dup sn have d: "Inr resp \<in> set (sends tr)" by simp
    note m = retry_mempool[OF gas_retry(4) tr d code]
    from m(3) obtain pre b where
      p: "tr = pre @ [EvBroadcastTx b (Inr resp)]" "sends pre = []"
        "\<forall>f0 e. EvCalculateGas f0 (Inl e) \<notin> set pre"
      by blast
    have x: "txf s' = txf (correctSequence (Error err) s)"
      using m(2) gas_retry(5) correctSequence_txf[OF gas_retry(2)] by simp
    have ss: "sends (since s s') = [Inr resp]" unfolding sn p(1) using p(2) by simp
    have ne: "EvCalculateGas f (Inl e) \<in> set (since s s') \<Longrightarrow> e = err" for f e
      unfolding sn p(1) using p(3) by simp
    have in1: "EvCalculateGas ?f0 (Inl err) \<in> set (since s s')" unfolding sn by simp
    have c2: ?c2
      unfolding sn p(1)
      by (intro exI[of _ "[EvLock, EvCalculateGas ?f0 (Inl err)] @ pre"] exI[of _ b]) simp
    have c3: ?c3 using ss by (rule disjI1)
    have c4: ?c4 using in1 by blast
    have c5: ?c5 using ne x by blast
    have c6: ?c6 unfolding ss by simp
    show ?thesis by (intro conjI m(1) c2 c3 c4 c5 c6)
  next
    case (rejected_retry pre1 f b1 resp1 s2 s3)
    let ?t = "correctSequence (RawLog resp1) s2"
    from rejected_retry(8) obtain tr where tr: "trace s3 = trace ?t @ tr"
      by (rule retry_trace)
    let ?first = "EvLock # pre1 @ [EvBuildUnsignedTx f, EvSign f, EvEncode, EvBroadcastTx b1 (Inr resp1)]"
    have sn: "since s s' = ?first @ tr @ [EvUnlock]"
      using rejected_retry(1,9) tr by (intro since_append) simp
    have s1: "sends ?first = [Inr resp1]" using rejected_retry(2) by simp
    have "sends (since s s') = Inr resp1 # sends tr"
      unfolding sn using rejected_retry(2) by simp
    with dup rejected_retry(7) code(2) have d: "Inr resp \<in> set (sends tr)" by auto
    note m = retry_mempool[OF rejected_retry(8) tr d code]
    from m(3) obtain pre b where
      p: "tr = pre @ [EvBroadcastTx b (Inr resp)]" "sends pre = []"
        "\<forall>f0 e. EvCalculateGas f0 (Inl e) \<notin> set pre"
      by blast
    have x: "txf s' = txf (correctSequence (RawLog resp1) s)"
      using m(2) rejected_retry(9) correctSequence_txf[OF rejected_retry(4)] by simp
    have ss: "sends (since s s') = [Inr resp1, Inr resp]"
      unfolding sn p(1) using p(2) rejected_retry(2) by simp
    have ne: "EvCalculateGas f' (Inl e) \<notin> set (since s s')" for f' e
      unfolding sn p(1) using p(3) rejected_retry(3) by simp
    have c2: ?c2
      unfolding sn p(1) by (intro exI[of _ "?first @ pre"] exI[of _ b]) simp
    have c3: ?c3 using ss by blast
    have c4: ?c4 unfolding ss by simp
    have c5: ?c5 using ne by simp
    have c6: ?c6 unfolding ss using x by simp
    show ?thesis by (intro conjI m(1) c2 c3 c4 c5 c6)
  qed
  with o show ?thesis by simp
qed

theorem mempool_cache_sentinel_witness:
  "fst (Broadcast (ex_env (\<lambda>i. Inr 1) (\<lambda>j. Inr duplicate)) [''send''] ''memo''
         (ex_state 200000)) = Inl (Wrapf ''failed to broadcast'' ErrTxInMempoolCache) \<and>
   sends (since (ex_state 200000)
       (snd (Broadcast (ex_env (\<lambda>i. Inr 1) (\<lambda>j. Inr duplicate)) [''send''] ''memo''
         (ex_state 200000)))) = [Inr duplicate] \<and>
   txf (snd (Broadcast (ex_env (\<lambda>i. Inr 1) (\<lambda>j. Inr duplicate)) [''send''] ''memo''
         (ex_state 200000))) = txf (ex_state 200000) \<and>
   fst (Broadcast (ex_env (\<lambda>i. Inr 1) (\<lambda>j. if j = 0 then Inr wrong_sequence else Inr duplicate))
          [''send''] ''memo'' (ex_state 200000)) =
     Inl (Wrapf ''failed to broadcast'' ErrTxInMempoolCache) \<and>
   sends (since (ex_state 200000)
       (snd (Broadcast (ex_env (\<lambda>i. Inr 1) (\<lambda>j. if j = 0 then Inr wrong_sequence else Inr duplicate))
          [''send''] ''memo'' (ex_state 200000)))) = [Inr wrong_sequence, Inr duplicate] \<and>
   txf (snd (Broadcast (ex_env (\<lambda>i. Inr 1) (\<lambda>j. if j = 0 then Inr wrong_sequence else Inr duplicate))
          [''send''] ''memo'' (ex_state 200000))) = WithSequence 9 (txf (ex_state 200000))"
proof -
  let ?S = "ex_state 200000"
  let ?E1 = "ex_env (\<lambda>i. Inr 1) (\<lambda>j. Inr duplicate)"
  let ?B1 = "Broadcast ?E1 [''send''] ''memo'' ?S"
  let ?E2 = "ex_env (\<lambda>i. Inr 1) (\<lambda>j. if j = 0 then Inr wrong_sequence else Inr duplicate)"
  let ?B2 = "Broadcast ?E2 [''send''] ''memo'' ?S"
  have code: "Code duplicate \<noteq> 0" "Code duplicate = MempoolCacheCode ?E1"
    "Code duplicate = MempoolCacheCode ?E2"
    by (simp_all add: duplicate_def ex_env_def)
  have run1: "?B1 = (fst ?B1, snd ?B1)" by simp
  have sn1: "since ?S (snd ?B1) =
      [EvLock, EvBuildUnsignedTx (attemptFactory ''memo'' (txf ?S)),
       EvSign (attemptFactory ''memo'' (txf ?S)), EvEncode,
       EvBroadcastTx [5] (Inr duplicate), EvUnlock]"
    by code_simp
  have s1: "sends (since ?S (snd ?B1)) = [Inr duplicate]" unfolding sn1 by simp
  have dup1: "Inr duplicate \<in> set (sends (since ?S (snd ?B1)))" unfolding s1 by simp
  have ne1: "\<forall>f err. EvCalculateGas f (Inl err) \<notin> set (since ?S (snd ?B1))"
    unfolding sn1 by simp
  note t1 = mempool_cache_sentinel[OF run1 dup1 code(1,2)]
  note a1 = conjunct1[OF t1]
  note b1 = conjunct1[OF mp[OF conjunct1[OF conjunct2[OF conjunct2[OF conjunct2[OF conjunct2[OF t1]]]]]
      conjI[OF s1 ne1]]]
  have run2: "?B2 = (fst ?B2, snd ?B2)" by simp
  have s2: "sends (since ?S (snd ?B2)) = [Inr wrong_sequence, Inr duplicate]" by code_simp
  have dup2: "Inr duplicate \<in> set (sends (since ?S (snd ?B2)))" unfolding s2 by simp
  note t2 = mempool_cache_sentinel[OF run2 dup2 code(1,3)]
  note a2 = conjunct1[OF t2]
  note c2 = mp[OF spec[OF conjunct2[OF conjunct2[OF conjunct2[OF conjunct2[OF conjunct2[OF
      conjunct2[OF t2]]]]]]] s2]
  have nine: "getNextSequence (RawLog wrong_sequence) = 9" by code_simp
  have cs: "txf (correctSequence (RawLog wrong_sequence) ?S) = WithSequence 9 (txf ?S)"
    by (simp add: correctSequence_def nine)
  from a1 s1 b1 a2 s2 c2[unfolded cs] show ?thesis by (intro conjI)
qed

subsection \<open>One attempt that ends the call\<close>

text \<open>
  The hypotheses below name the stages of the attempt that \<open>broadcast\<close> makes in
  state \<open>s\<close>: \<open>resolveGas\<close> from \<open>entered isRetry s\<close> gives the attempt's
  factory \<open>f\<close>, \<open>submit\<close> builds, signs, encodes and sends with it. \<open>isRetry\<close> is
  free, so each statement covers the first attempt of a call and its retry.
\<close>

lemma attempt_trace:
  assumes gas: "resolveGas env (attemptFactory memo (txf s)) msgs (entered isRetry s) = (Inr f, s1)"
    and sub: "submit env f msgs s1 = (r, s2)"
  shows "txf (returned isRetry s2) = txf s"
    and "attempts_at_most 1 (since s (returned isRetry s2))"
    and "r = Inr resp \<Longrightarrow> sends (since s (returned isRetry s2)) = [Inr resp]"
proof -
  show "txf (returned isRetry s2) = txf s"
    using resolveGas_state(1)[OF gas] submit_state(1)[OF sub] by simp
  from gas obtain tr1 where
    tr1: "trace s1 = trace (entered isRetry s) @ tr1"
      "stage_trace tr1 1 0 [] (Sequence (attemptFactory memo (txf s)))"
    by (rule resolveGas_trace)
  have sf: "Sequence f = Sequence (txf s)" using resolveGas_state(3)[OF gas] by simp
  have "\<exists>tr2 rs. trace s2 = trace s1 @ tr2 \<and> stage_trace tr2 0 1 rs (Sequence (txf s)) \<and>
          length rs \<le> 1 \<and> (\<forall>resp. r = Inr resp \<longrightarrow> rs = [Inr resp])"
  proof (cases r)
    case (Inl e)
    from sub[unfolded Inl] obtain tr2 rs where
      "trace s2 = trace s1 @ tr2" "stage_trace tr2 0 1 rs (Sequence f)"
      "rs = [] \<or> (\<exists>err. rs = [Inl err])"
      by (rule submit_trace_Inl)
    with Inl sf show ?thesis by auto
  next
    case (Inr resp)
    from sub[unfolded Inr] obtain tr2 where
      "trace s2 = trace s1 @ tr2" "stage_trace tr2 0 1 [Inr resp] (Sequence f)"
      by (rule submit_trace_Inr)
    with Inr sf show ?thesis by auto
  qed
  then obtain tr2 rs where
    tr2: "trace s2 = trace s1 @ tr2" "stage_trace tr2 0 1 rs (Sequence (txf s))"
      "length rs \<le> 1" "\<And>resp. r = Inr resp \<Longrightarrow> rs = [Inr resp]"
    by blast
  let ?tr = "(if isRetry then [] else [EvLock]) @ tr1 @ tr2 @ (if isRetry then [] else [EvUnlock])"
  have "trace (returned isRetry s2) = trace s @ ?tr" using tr1 tr2 by simp
  then have sn: "since s (returned isRetry s2) = ?tr" by (rule since_append)
  show "attempts_at_most 1 (since s (returned isRetry s2))"
    unfolding sn using tr1(2) tr2(2,3) by (auto simp: attempts_at_most_def stage_trace_def)
  show "sends (since s (returned isRetry s2)) = [Inr resp]" if "r = Inr resp"
    unfolding sn using tr1(2) tr2(2) tr2(4)[OF that] by (auto simp: stage_trace_def)
qed

text \<open>Evaluating the model on the scripted node.\<close>

lemmas ex_defs = ex_env_def ex_state_def resolveGas_def calculateGas_def submit_def
  buildUnsignedTx_def sign_def txEncoder_def broadcastTx_def attemptFactory_def WithMemo_def
  WithGasAdjustment_def WithGas_def WithSequence_def float64_is_zero_def float64_one_def
  emit_def entered_def returned_def

lemma submit_stage_error:
  assumes "(stage = ''failed to build tx'' \<and> buildUnsignedTx env f msgs s1 = (Inl err, s2)) \<or>
       (stage = ''failed to sign tx'' \<and>
          (\<exists>t sa. buildUnsignedTx env f msgs s1 = (Inr t, sa) \<and>
                  sign env f (FromName (ctx sa)) t sa = (Inl err, s2))) \<or>
       (stage = ''failed to encode tx'' \<and>
          (\<exists>t sa t' sb. buildUnsignedTx env f msgs s1 = (Inr t, sa) \<and>
                  sign env f (FromName (ctx sa)) t sa = (Inr t', sb) \<and>
                  txEncoder env t' sb = (Inl err, s2))) \<or>
       (stage = ''failed to broadcast tx'' \<and>
          (\<exists>t sa t' sb txBytes sc. buildUnsignedTx env f msgs s1 = (Inr t, sa) \<and>
                  sign env f (FromName (ctx sa)) t sa = (Inr t', sb) \<and>
                  txEncoder env t' sb = (Inr txBytes, sc) \<and>
                  broadcastTx env txBytes sc = (Inl err, s2)))"
  shows "submit env f msgs s1 = (Inl (Wrapf stage err), s2)"
  using assms by (auto simp: submit_def)

text \<open>
  C7. When building, signing or encoding fails, or the submission fails in transport,
  \<open>broadcast\<close> returns that error wrapped with the description of the stage; the
  state it hands back is the one right after the failing call, so there is no retry,
  and the local factory, with its sequence, is unchanged. \<open>Broadcast\<close> adds its own
  prefix.
\<close>

theorem fatal_stage_failures:
  assumes gas: "resolveGas env (attemptFactory memo (txf s)) msgs (entered isRetry s) = (Inr f, s1)"
    and stage:
      "(stage = ''failed to build tx'' \<and> buildUnsignedTx env f msgs s1 = (Inl err, s2)) \<or>
       (stage = ''failed to sign tx'' \<and>
          (\<exists>t sa. buildUnsignedTx env f msgs s1 = (Inr t, sa) \<and>
                  sign env f (FromName (ctx sa)) t sa = (Inl err, s2))) \<or>
       (stage = ''failed to encode tx'' \<and>
          (\<exists>t sa t' sb. buildUnsignedTx env f msgs s1 = (Inr t, sa) \<and>
                  sign env f (FromName (ctx sa)) t sa = (Inr t', sb) \<and>
                  txEncoder env t' sb = (Inl err, s2))) \<or>
       (stage = ''failed to broadcast tx'' \<and>
          (\<exists>t sa t' sb txBytes sc. buildUnsignedTx env f msgs s1 = (Inr t, sa) \<and>
                  sign env f (FromName (ctx sa)) t sa = (Inr t', sb) \<and>
                  txEncoder env t' sb = (Inr txBytes, sc) \<and>
                  broadcastTx env txBytes sc = (Inl err, s2)))"
  shows "broadcast env msgs memo isRetry s = (Inl (Wrapf stage err), returned isRetry s2) \<and>
         txf (returned isRetry s2) = txf s \<and>
         attempts_at_most 1 (since s (returned isRetry s2)) \<and>
         (\<not> isRetry \<longrightarrow>
            Broadcast env msgs memo s =
              (Inl (Wrapf ''failed to broadcast'' (Wrapf stage err)), returned isRetry s2))"
proof -
  have sub: "submit env f msgs s1 = (Inl (Wrapf stage err), s2)"
    by (rule submit_stage_error[OF stage])
  have b: "broadcast env msgs memo isRetry s = (Inl (Wrapf stage err), returned isRetry s2)"
    by (rule broadcast_submit_error[OF gas sub])
  then have "\<not> isRetry \<longrightarrow> Broadcast env msgs memo s =
              (Inl (Wrapf ''failed to broadcast'' (Wrapf stage err)), returned isRetry s2)"
    by (cases isRetry) (simp_all add: Broadcast_def)
  with b attempt_trace(1,2)[OF gas sub] show ?thesis by simp
qed

theorem fatal_stage_failures_witness:
  "Broadcast ((ex_env (\<lambda>i. Inr 1) (\<lambda>j. Inr accepted))
              \<lparr>Sign := \<lambda>w f name t. (Inl (Ext ''key not found''), w)\<rparr>)
     [''send''] ''memo'' (ex_state 200000) =
   (Inl (Wrapf ''failed to broadcast'' (Wrapf ''failed to sign tx'' (Ext ''key not found''))),
    (ex_state 200000)\<lparr>trace :=
       [EvLock,
        EvBuildUnsignedTx (attemptFactory ''memo'' (txf (ex_state 200000))),
        EvSign (attemptFactory ''memo'' (txf (ex_state 200000))),
        EvUnlock]\<rparr>)"
proof -
  let ?E = "(ex_env (\<lambda>i. Inr 1) (\<lambda>j. Inr accepted))
              \<lparr>Sign := \<lambda>w f name t. (Inl (Ext ''key not found''), w)\<rparr>"
  let ?S = "ex_state 200000"
  let ?f = "attemptFactory ''memo'' (txf ?S)"
  let ?sa = "emit (EvBuildUnsignedTx ?f) (entered False ?S)"
  let ?s2 = "emit (EvSign ?f) ?sa"
  have gas: "resolveGas ?E ?f [''send''] (entered False ?S) = (Inr ?f, entered False ?S)"
    by (simp add: ex_defs)
  have build: "buildUnsignedTx ?E ?f [''send''] (entered False ?S) = (Inr [5], ?sa)"
    by (simp add: ex_defs)
  have sgn: "sign ?E ?f (FromName (ctx ?sa)) [5] ?sa = (Inl (Ext ''key not found''), ?s2)"
    by (simp add: ex_defs)
  have stage:
    "(''failed to sign tx'' = ''failed to build tx'' \<and>
        buildUnsignedTx ?E ?f [''send''] (entered False ?S) = (Inl (Ext ''key not found''), ?s2)) \<or>
       (''failed to sign tx'' = ''failed to sign tx'' \<and>
          (\<exists>t sa. buildUnsignedTx ?E ?f [''send''] (entered False ?S) = (Inr t, sa) \<and>
                  sign ?E ?f (FromName (ctx sa)) t sa = (Inl (Ext ''key not found''), ?s2))) \<or>
       (''failed to sign tx'' = ''failed to encode tx'' \<and>
          (\<exists>t sa t' sb. buildUnsignedTx ?E ?f [''send''] (entered False ?S) = (Inr t, sa) \<and>
                  sign ?E ?f (FromName (ctx sa)) t sa = (Inr t', sb) \<and>
                  txEncoder ?E t' sb = (Inl (Ext ''key not found''), ?s2))) \<or>
       (''failed to sign tx'' = ''failed to broadcast tx'' \<and>
          (\<exists>t sa t' sb txBytes sc. buildUnsignedTx ?E ?f [''send''] (entered False ?S) = (Inr t, sa) \<and>
                  sign ?E ?f (FromName (ctx sa)) t sa = (Inr t', sb) \<and>
                  txEncoder ?E t' sb = (Inr txBytes, sc) \<and>
                  broadcastTx ?E txBytes sc = (Inl (Ext ''key not found''), ?s2)))"
    by (rule disjI2, rule disjI1, rule conjI, rule refl, rule exI, rule exI, rule conjI,
        rule build, rule sgn)
  have fin: "returned False ?s2 = ?S\<lparr>trace := [EvLock, EvBuildUnsignedTx ?f, EvSign ?f, EvUnlock]\<rparr>"
    by (simp add: ex_state_def emit_def entered_def returned_def)
  have "Broadcast ?E [''send''] ''memo'' ?S =
      (Inl (Wrapf ''failed to broadcast'' (Wrapf ''failed to sign tx'' (Ext ''key not found''))),
       returned False ?s2)"
    using fatal_stage_failures[OF gas stage] by blast
  then show ?thesis unfolding fin .
qed

subsection \<open>refreshSequence\<close>

text \<open>
  C8. When \<^verbatim>\<open>EnsureExists\<close> reports that the account does not exist,
  \<open>refreshSequence\<close> fails with that error, wrapped, and leaves the factory alone.
  When the account exists and the account query answers, the local account number and
  sequence become the values of the answer, whatever they were before.
\<close>

theorem refreshSequence_resync:
  "(EnsureExists env (node s) (From s) = (Some err, w) \<longrightarrow>
      fst (refreshSequence env s) = Some (Wrapf ''failed to EnsureExists'' err) \<and>
      txf (snd (refreshSequence env s)) = txf s) \<and>
   (EnsureExists env (node s) (From s) = (None, w) \<and>
    GetAccountNumberSequence env w (From s) = (Inr (num, seq), w') \<longrightarrow>
      fst (refreshSequence env s) = None \<and>
      txf (snd (refreshSequence env s)) = (txf s)\<lparr>AccountNumber := num, Sequence := seq\<rparr>)"
  by (simp add: refreshSequence_def ensureExists_def getAccountNumberSequence_def From_def
      WithSequence_def WithAccountNumber_def emit_def)

theorem refreshSequence_resync_witness:
  "fst (refreshSequence ((ex_env (\<lambda>i. Inr 1) (\<lambda>j. Inr accepted))
         \<lparr>EnsureExists := \<lambda>w a. (Some (Ext ''account not found''), w)\<rparr>) (ex_state 0)) =
     Some (Wrapf ''failed to EnsureExists'' (Ext ''account not found'')) \<and>
   fst (refreshSequence ((ex_env (\<lambda>i. Inr 1) (\<lambda>j. Inr accepted))
         \<lparr>GetAccountNumberSequence := \<lambda>w a. (Inr (12, 34), w)\<rparr>) (ex_state 0)) = None \<and>
   AccountNumber (txf (snd (refreshSequence ((ex_env (\<lambda>i. Inr 1) (\<lambda>j. Inr accepted))
         \<lparr>GetAccountNumberSequence := \<lambda>w a. (Inr (12, 34), w)\<rparr>) (ex_state 0)))) = 12 \<and>
   Sequence (txf (snd (refreshSequence ((ex_env (\<lambda>i. Inr 1) (\<lambda>j. Inr accepted))
         \<lparr>GetAccountNumberSequence := \<lambda>w a. (Inr (12, 34), w)\<rparr>) (ex_state 0)))) = 34"
  using
    refreshSequence_resync[of
      "(ex_env (\<lambda>i. Inr 1) (\<lambda>j. Inr accepted))
         \<lparr>EnsureExists := \<lambda>w a. (Some (Ext ''account not found''), w)\<rparr>" "ex_state 0"
      "Ext ''account not found''" "(0, 0)"]
    refreshSequence_resync[of
      "(ex_env (\<lambda>i. Inr 1) (\<lambda>j. Inr accepted))
         \<lparr>GetAccountNumberSequence := \<lambda>w a. (Inr (12, 34), w)\<rparr>" "ex_state 0"
      _ "(0, 0)" 12 34 "(0, 0)"]
  by (simp add: ex_env_def ex_state_def From_def)

subsection \<open>The retry does not wait for a corrected sequence\<close>

lemma getNextSequence_out_of_gas: "getNextSequence ''out of gas'' = 0"
  by (rule no_mention_no_sequence[OF out_of_gas_no_mention])

text \<open>
  C5, as stated, fails: a first attempt that fails with a text from which no sequence can
  be read is retried all the same. On the scripted node the first submission is rejected
  with \<^verbatim>\<open>out of gas\<close>, the extraction gives 0, a second submission follows and
  the call succeeds.
\<close>

theorem retry_despite_no_sequence:
  "getNextSequence (RawLog out_of_gas) = 0 \<and>
   fst (Broadcast (ex_env (\<lambda>i. Inr 1) (\<lambda>j. if j = 0 then Inr out_of_gas else Inr accepted))
          [''send''] ''memo'' (ex_state 200000)) = Inr accepted \<and>
   sends (trace (snd (Broadcast
          (ex_env (\<lambda>i. Inr 1) (\<lambda>j. if j = 0 then Inr out_of_gas else Inr accepted))
          [''send''] ''memo'' (ex_state 200000)))) = [Inr out_of_gas, Inr accepted]"
  by code_simp

text \<open>
  C5, amended. After a first attempt that fails in gas estimation, or whose response has
  a code that is neither 0 nor the mempool-cache code, with a text from which the
  extraction gives 0, the local factory is the one the call started with, and the call
  returns what its one retry returns from there: the retry does not depend on a
  sequence having been extracted, and the first error is not what the caller gets.
\<close>

theorem retry_without_extracted_sequence:
  "(resolveGas env (attemptFactory memo (txf s)) msgs (emit EvLock s) = (Inl err, s1) \<and>
    getNextSequence (Error err) = 0 \<longrightarrow>
      txf s1 = txf s \<and>
      broadcast env msgs memo False s =
        (case broadcast env msgs memo True s1 of (out, s') \<Rightarrow> (out, emit EvUnlock s'))) \<and>
   (resolveGas env (attemptFactory memo (txf s)) msgs (emit EvLock s) = (Inr f, s2) \<and>
    submit env f msgs s2 = (Inr resp, s3) \<and>
    Code resp \<noteq> 0 \<and> Code resp \<noteq> MempoolCacheCode env \<and>
    getNextSequence (RawLog resp) = 0 \<longrightarrow>
      txf s3 = txf s \<and>
      broadcast env msgs memo False s =
        (case broadcast env msgs memo True s3 of (out, s') \<Rightarrow> (out, emit EvUnlock s')))"
proof (intro conjI impI; elim conjE)
  assume gas: "resolveGas env (attemptFactory memo (txf s)) msgs (emit EvLock s) = (Inl err, s1)"
    and z: "getNextSequence (Error err) = 0"
  show "txf s1 = txf s" using resolveGas_state(1)[OF gas] by simp
  show "broadcast env msgs memo False s =
        (case broadcast env msgs memo True s1 of (out, s') \<Rightarrow> (out, emit EvUnlock s'))"
    using broadcast_gas_error_first[OF gas] by (simp add: correctSequence_none[OF z])
next
  assume gas: "resolveGas env (attemptFactory memo (txf s)) msgs (emit EvLock s) = (Inr f, s2)"
    and sub: "submit env f msgs s2 = (Inr resp, s3)"
    and code: "Code resp \<noteq> 0" "Code resp \<noteq> MempoolCacheCode env"
    and z: "getNextSequence (RawLog resp) = 0"
  show "txf s3 = txf s"
    using resolveGas_state(1)[OF gas] submit_state(1)[OF sub] by simp
  show "broadcast env msgs memo False s =
        (case broadcast env msgs memo True s3 of (out, s') \<Rightarrow> (out, emit EvUnlock s'))"
    using broadcast_rejected_first[OF gas sub code] by (simp add: correctSequence_none[OF z])
qed

theorem retry_without_extracted_sequence_witness:
  "broadcast (ex_env (\<lambda>i. Inr 1) (\<lambda>j. if j = 0 then Inr out_of_gas else Inr accepted))
     [''send''] ''memo'' False (ex_state 200000) =
   (case broadcast (ex_env (\<lambda>i. Inr 1) (\<lambda>j. if j = 0 then Inr out_of_gas else Inr accepted))
           [''send''] ''memo'' True
           (snd (submit (ex_env (\<lambda>i. Inr 1) (\<lambda>j. if j = 0 then Inr out_of_gas else Inr accepted))
                   (attemptFactory ''memo'' (txf (ex_state 200000))) [''send'']
                   (emit EvLock (ex_state 200000)))) of
      (out, s') \<Rightarrow> (out, emit EvUnlock s')) \<and>
   broadcast (ex_env (\<lambda>i. Inl (Ext ''timeout'')) (\<lambda>j. Inr accepted))
     [''send''] ''memo'' False (ex_state 0) =
   (case broadcast (ex_env (\<lambda>i. Inl (Ext ''timeout'')) (\<lambda>j. Inr accepted))
           [''send''] ''memo'' True
           (snd (resolveGas (ex_env (\<lambda>i. Inl (Ext ''timeout'')) (\<lambda>j. Inr accepted))
                   (attemptFactory ''memo'' (txf (ex_state 0))) [''send'']
                   (emit EvLock (ex_state 0)))) of
      (out, s') \<Rightarrow> (out, emit EvUnlock s'))"
proof -
  let ?E = "ex_env (\<lambda>i. Inr 1) (\<lambda>j. if j = 0 then Inr out_of_gas else Inr accepted)"
  let ?S = "ex_state 200000"
  let ?f = "attemptFactory ''memo'' (txf ?S)"
  let ?s3 = "snd (submit ?E ?f [''send''] (emit EvLock ?S))"
  have gas: "resolveGas ?E ?f [''send''] (emit EvLock ?S) = (Inr ?f, emit EvLock ?S)"
    by (simp add: ex_defs)
  have "fst (submit ?E ?f [''send''] (emit EvLock ?S)) = Inr out_of_gas"
    by (simp add: ex_defs)
  then have sub: "submit ?E ?f [''send''] (emit EvLock ?S) = (Inr out_of_gas, ?s3)"
    by (simp add: prod_eq_iff)
  have code: "Code out_of_gas \<noteq> 0" "Code out_of_gas \<noteq> MempoolCacheCode ?E"
    by (simp_all add: out_of_gas_def ex_env_def)
  have z: "getNextSequence (RawLog out_of_gas) = 0"
    by (simp add: out_of_gas_def getNextSequence_out_of_gas)
  have h2: "resolveGas ?E ?f [''send''] (emit EvLock ?S) = (Inr ?f, emit EvLock ?S) \<and>
    submit ?E ?f [''send''] (emit EvLock ?S) = (Inr out_of_gas, ?s3) \<and>
    Code out_of_gas \<noteq> 0 \<and> Code out_of_gas \<noteq> MempoolCacheCode ?E \<and>
    getNextSequence (RawLog out_of_gas) = 0"
    by (intro conjI gas sub code z)
  let ?E' = "ex_env (\<lambda>i. Inl (Ext ''timeout'')) (\<lambda>j. Inr accepted)"
  let ?S' = "ex_state 0"
  let ?f' = "attemptFactory ''memo'' (txf ?S')"
  let ?s1 = "snd (resolveGas ?E' ?f' [''send''] (emit EvLock ?S'))"
  have "fst (resolveGas ?E' ?f' [''send''] (emit EvLock ?S')) = Inl (Ext ''timeout'')"
    by (simp add: ex_defs)
  then have gas': "resolveGas ?E' ?f' [''send''] (emit EvLock ?S') = (Inl (Ext ''timeout''), ?s1)"
    by (simp add: prod_eq_iff)
  have z': "getNextSequence (Error (Ext ''timeout'')) = 0"
    by code_simp
  have h1: "resolveGas ?E' ?f' [''send''] (emit EvLock ?S') = (Inl (Ext ''timeout''), ?s1) \<and>
    getNextSequence (Error (Ext ''timeout'')) = 0"
    by (intro conjI gas' z')
  note a = mp[OF conjunct2[OF retry_without_extracted_sequence[where env = ?E and s = ?S
          and memo = "''memo''" and msgs = "[''send'']"]] h2]
  note b = mp[OF conjunct1[OF retry_without_extracted_sequence[where env = ?E' and s = ?S'
          and memo = "''memo''" and msgs = "[''send'']"]] h1]
  from conjunct2[OF a] conjunct2[OF b] show ?thesis by (rule conjI)
qed

subsection \<open>The retry after a sequence mismatch\<close>



subsection \<open>One retry at most\<close>

text \<open>
  C2. A call of \<open>Broadcast\<close> makes at most two attempts: at most two gas estimations,
  two builds and two submissions. If its first two submissions are answered with
  responses, the second with a code that is neither 0 nor the mempool-cache code, then
  these two submissions are all there are and the call returns the error built from the
  second response. (A first response with code 0 or the mempool-cache code ends the call,
  so a second submission only follows a first response with another code.)
\<close>

theorem at_most_one_retry:
  assumes run: "Broadcast env msgs memo s = (out, s')"
  shows "attempts_at_most 2 (since s s') \<and>
         (\<forall>resp1 resp2.
            take 2 (sends (since s s')) = [Inr resp1, Inr resp2] \<and> Code resp2 \<noteq> 0 \<and>
            Code resp2 \<noteq> MempoolCacheCode env \<longrightarrow>
              sends (since s s') = [Inr resp1, Inr resp2] \<and>
              out = Inl (Wrapf ''failed to broadcast''
                     (Errorf ''failed to broadcast tx'' (TxResponse_String env resp2))))"
proof -
  obtain out0 where b: "broadcast env msgs memo False s = (out0, s')"
    and o: "out = (case out0 of Inl err \<Rightarrow> Inl (Wrapf ''failed to broadcast'' err) | Inr r \<Rightarrow> Inr r)"
    using run by (auto simp: Broadcast_def split: prod.splits sum.splits)
  from b obtain tr where
    tr: "trace s' = trace s @ tr" "attempts_at_most 2 tr"
    "\<And>r1 resp. sends tr = [r1, Inr resp] \<Longrightarrow> Code resp \<noteq> 0 \<Longrightarrow>
       Code resp \<noteq> MempoolCacheCode env \<Longrightarrow>
       out0 = Inl (Errorf ''failed to broadcast tx'' (TxResponse_String env resp))"
    by (rule first_summary) blast
  have sn: "since s s' = tr" using tr(1) by (rule since_append)
  have len: "length (sends tr) \<le> 2" using tr(2) by (simp add: attempts_at_most_def)
  show ?thesis
  proof (intro conjI allI impI; (elim conjE)?)
    show "attempts_at_most 2 (since s s')" unfolding sn by (rule tr(2))
  next
    fix resp1 resp2
    assume h: "take 2 (sends (since s s')) = [Inr resp1, Inr resp2]" "Code resp2 \<noteq> 0"
      "Code resp2 \<noteq> MempoolCacheCode env"
    from h(1) len show e: "sends (since s s') = [Inr resp1, Inr resp2]" unfolding sn by simp
    from tr(3)[OF e[unfolded sn] h(2,3)] o
    show "out = Inl (Wrapf ''failed to broadcast''
                     (Errorf ''failed to broadcast tx'' (TxResponse_String env resp2)))"
      by simp
  qed
qed

theorem at_most_one_retry_witness:
  "attempts_at_most 2
     (since (ex_state 200000)
        (snd (Broadcast (ex_env (\<lambda>i. Inr 1) (\<lambda>j. Inr out_of_gas)) [''send''] ''memo''
                (ex_state 200000)))) \<and>
   sends (since (ex_state 200000)
        (snd (Broadcast (ex_env (\<lambda>i. Inr 1) (\<lambda>j. Inr out_of_gas)) [''send''] ''memo''
                (ex_state 200000)))) = [Inr out_of_gas, Inr out_of_gas] \<and>
   fst (Broadcast (ex_env (\<lambda>i. Inr 1) (\<lambda>j. Inr out_of_gas)) [''send''] ''memo''
          (ex_state 200000)) =
     Inl (Wrapf ''failed to broadcast'' (Errorf ''failed to broadcast tx'' ''out of gas''))"
proof -
  let ?E = "ex_env (\<lambda>i. Inr 1) (\<lambda>j. Inr out_of_gas)"
  let ?S = "ex_state 200000"
  let ?B = "Broadcast ?E [''send''] ''memo'' ?S"
  have run: "?B = (fst ?B, snd ?B)" by simp
  have h: "take 2 (sends (since ?S (snd ?B))) = [Inr out_of_gas, Inr out_of_gas] \<and>
     Code out_of_gas \<noteq> 0 \<and> Code out_of_gas \<noteq> MempoolCacheCode ?E"
    by code_simp
  have str: "TxResponse_String ?E out_of_gas = ''out of gas''"
    by (simp add: ex_env_def out_of_gas_def)
  note t = at_most_one_retry[OF run]
  note u = mp[OF spec[OF spec[OF conjunct2[OF t]]] h]
  from conjunct1[OF t] conjunct1[OF u] conjunct2[OF u, unfolded str] show ?thesis
    by (intro conjI)
qed

subsection \<open>The sequence after successful calls\<close>

text \<open>
  C1, as stated, fails when a call succeeds on its retry after a corrected gas
  estimation: no submission is answered with a code other than 0, the call succeeds, and
  the sequence moves from 5 to 8, the successor of the sequence the node asked for.
\<close>

theorem corrected_estimate_skips_sequence:
  "fst (Broadcast_seq
          (ex_env (\<lambda>i. if i = 0 then Inl estimate_mismatch else Inr 200000) (\<lambda>j. Inr accepted))
          [([''send''], ''memo'')] (ex_state 0)) = [Inr accepted] \<and>
   sends (trace (snd (Broadcast_seq
          (ex_env (\<lambda>i. if i = 0 then Inl estimate_mismatch else Inr 200000) (\<lambda>j. Inr accepted))
          [([''send''], ''memo'')] (ex_state 0)))) = [Inr accepted] \<and>
   Code accepted = 0 \<and>
   Sequence (txf (ex_state 0)) = 5 \<and>
   Sequence (txf (snd (Broadcast_seq
          (ex_env (\<lambda>i. if i = 0 then Inl estimate_mismatch else Inr 200000) (\<lambda>j. Inr accepted))
          [([''send''], ''memo'')] (ex_state 0)))) = 8"
  by code_simp

lemma Broadcast_step:
  assumes "Broadcast env msgs memo s = (out, s1)"
  obtains tr where "trace s1 = trace s @ tr"
    "list_all node_ok tr \<longrightarrow> succeeded out \<longrightarrow> Sequence (txf s1) = Sequence (txf s) + 1"
proof -
  obtain out0 where b: "broadcast env msgs memo False s = (out0, s1)"
    and o: "succeeded out \<longleftrightarrow> (\<exists>r. out0 = Inr r)"
    using assms by (auto simp: Broadcast_def succeeded_def split: prod.splits sum.splits)
  from b obtain tr where
    tr: "trace s1 = trace s @ tr"
    "list_all node_ok tr \<Longrightarrow>
       (case out0 of Inr resp \<Rightarrow> Sequence (txf s1) = Sequence (txf s) + 1
                  | Inl e \<Rightarrow> txf s1 = txf s)"
    by (rule first_summary) blast
  show thesis
  proof (rule that[of tr])
    show "trace s1 = trace s @ tr" by (rule tr(1))
    show "list_all node_ok tr \<longrightarrow> succeeded out \<longrightarrow> Sequence (txf s1) = Sequence (txf s) + 1"
      using tr(2) o by auto
  qed
qed

lemma Broadcast_seq_advance:
  "Broadcast_seq env calls s = (outs, s') \<Longrightarrow>
   \<exists>tr. trace s' = trace s @ tr \<and>
     (list_all node_ok tr \<longrightarrow> list_all succeeded outs \<longrightarrow>
        Sequence (txf s') = Sequence (txf s) + of_nat (length calls))"
proof (induction calls arbitrary: s outs s')
  case Nil
  then show ?case by simp
next
  case (Cons c calls)
  obtain msgs memo where c: "c = (msgs, memo)" by (cases c)
  obtain out s1 where b: "Broadcast env msgs memo s = (out, s1)"
    by (cases "Broadcast env msgs memo s")
  obtain outs' s2 where r: "Broadcast_seq env calls s1 = (outs', s2)"
    by (cases "Broadcast_seq env calls s1")
  from Cons.prems c b r have e: "outs = out # outs'" "s' = s2" by simp_all
  from b obtain tr1 where
    tr1: "trace s1 = trace s @ tr1"
    "list_all node_ok tr1 \<longrightarrow> succeeded out \<longrightarrow> Sequence (txf s1) = Sequence (txf s) + 1"
    by (rule Broadcast_step)
  from Cons.IH[OF r] obtain tr2 where
    tr2: "trace s2 = trace s1 @ tr2"
    "list_all node_ok tr2 \<longrightarrow> list_all succeeded outs' \<longrightarrow>
        Sequence (txf s2) = Sequence (txf s1) + of_nat (length calls)"
    by blast
  have "trace s' = trace s @ tr1 @ tr2" using e tr1 tr2 by simp
  moreover have "Sequence (txf s') = Sequence (txf s) + of_nat (length (c # calls))"
    if "list_all node_ok (tr1 @ tr2)" "list_all succeeded outs"
    using that e tr1(2) tr2(2) by simp
  ultimately show ?case by blast
qed

lemma successes_advance:
  assumes run: "Broadcast_seq env calls s = (outs, s')"
    and ok: "list_all succeeded outs"
    and node: "list_all node_ok (since s s')"
  shows "Sequence (txf s') = Sequence (txf s) + of_nat (length calls)"
    and "unat (Sequence (txf s)) + length calls < 2 ^ 64 \<Longrightarrow>
         unat (Sequence (txf s')) = unat (Sequence (txf s)) + length calls"
proof -
  from Broadcast_seq_advance[OF run] obtain tr where
    tr: "trace s' = trace s @ tr"
    "list_all node_ok tr \<longrightarrow> list_all succeeded outs \<longrightarrow>
        Sequence (txf s') = Sequence (txf s) + of_nat (length calls)"
    by blast
  have "since s s' = tr" using tr(1) by (rule since_append)
  with node ok tr(2) show w: "Sequence (txf s') = Sequence (txf s) + of_nat (length calls)"
    by simp
  show "unat (Sequence (txf s')) = unat (Sequence (txf s)) + length calls"
    if "unat (Sequence (txf s)) + length calls < 2 ^ 64"
  proof -
    from that have "length calls < 2 ^ 64" by simp
    then have "unat (of_nat (length calls) :: u64) = length calls"
      by (simp add: unat_of_nat)
    with that show ?thesis unfolding w by (simp add: unat_add_lem[THEN iffD1])
  qed
qed

lemma successful_retry_increments:
  assumes "broadcast env msgs memo True t = (out, t')" "succeeded out"
  shows "Sequence (txf t') = Sequence (txf t) + 1"
proof -
  from assms(2) obtain resp where o: "out = Inr resp"
    by (cases out) (simp_all add: succeeded_def)
  from assms(1) obtain tr where
    "\<And>r. out = Inr r \<Longrightarrow> Sequence (txf t') = Sequence (txf t) + 1"
    by (rule retry_summary) simp
  from this[OF o] show ?thesis .
qed

text \<open>
  C1, amended. After sequential calls of \<open>Broadcast\<close> that all succeed and during which
  every reply of the node reports success (each gas estimation returns an estimate, each
  submission a response with code 0), the local sequence is the sequence before the first
  call plus the number of calls, in 64-bit arithmetic, and as a number as long as that sum
  stays below \<open>2 ^ 64\<close>; with one call, a success increments the sequence by exactly 1.
  A retry that succeeds increments the sequence it starts with, the corrected one if
  there was a correction, by exactly 1.
\<close>

theorem successes_advance_sequence:
  "(Broadcast_seq env calls s = (outs, s') \<and> list_all succeeded outs \<and>
    list_all node_ok (since s s') \<longrightarrow>
      Sequence (txf s') = Sequence (txf s) + of_nat (length calls) \<and>
      (unat (Sequence (txf s)) + length calls < 2 ^ 64 \<longrightarrow>
         unat (Sequence (txf s')) = unat (Sequence (txf s)) + length calls)) \<and>
   (broadcast env msgs memo True t = (out, t') \<and> succeeded out \<longrightarrow>
      Sequence (txf t') = Sequence (txf t) + 1)"
  using successes_advance[of env calls s outs s']
    successful_retry_increments[of env msgs memo t out t']
  by blast

theorem successes_advance_sequence_witness:
  "list_all succeeded
     (fst (Broadcast_seq (ex_env (\<lambda>i. Inr 1) (\<lambda>j. Inr accepted))
        [([''a''], ''m1''), ([''b''], ''m2''), ([''c''], ''m3'')] (ex_state 200000))) \<and>
   list_all node_ok
     (since (ex_state 200000)
        (snd (Broadcast_seq (ex_env (\<lambda>i. Inr 1) (\<lambda>j. Inr accepted))
           [([''a''], ''m1''), ([''b''], ''m2''), ([''c''], ''m3'')] (ex_state 200000)))) \<and>
   Sequence (txf (ex_state 200000)) = 5 \<and>
   Sequence (txf (snd (Broadcast_seq (ex_env (\<lambda>i. Inr 1) (\<lambda>j. Inr accepted))
        [([''a''], ''m1''), ([''b''], ''m2''), ([''c''], ''m3'')] (ex_state 200000)))) = 8 \<and>
   unat (Sequence (txf (snd (Broadcast_seq (ex_env (\<lambda>i. Inr 1) (\<lambda>j. Inr accepted))
        [([''a''], ''m1''), ([''b''], ''m2''), ([''c''], ''m3'')] (ex_state 200000))))) = 5 + 3 \<and>
   succeeded (fst (broadcast (ex_env (\<lambda>i. Inr 1) (\<lambda>j. Inr accepted)) [''a''] ''m1'' True
        (ex_state 200000))) \<and>
   Sequence (txf (snd (broadcast (ex_env (\<lambda>i. Inr 1) (\<lambda>j. Inr accepted)) [''a''] ''m1'' True
        (ex_state 200000)))) = 6"
proof -
  let ?E = "ex_env (\<lambda>i. Inr 1) (\<lambda>j. Inr accepted)"
  let ?S = "ex_state 200000"
  let ?calls = "[([''a''], ''m1''), ([''b''], ''m2''), ([''c''], ''m3'')]"
  let ?R = "Broadcast_seq ?E ?calls ?S"
  let ?B = "broadcast ?E [''a''] ''m1'' True ?S"
  have run: "?R = (fst ?R, snd ?R)" by simp
  have ok: "list_all succeeded (fst ?R)" by code_simp
  have node: "list_all node_ok (since ?S (snd ?R))" by code_simp
  have five: "Sequence (txf ?S) = 5" by (simp add: ex_state_def)
  have small: "unat (Sequence (txf ?S)) + length ?calls < 2 ^ 64" by (simp add: five)
  have re: "?B = (fst ?B, snd ?B)" by simp
  have suc: "succeeded (fst ?B)" by code_simp
  note t = successes_advance_sequence[of ?E ?calls ?S "fst ?R" "snd ?R" "[''a'']" "''m1''" ?S
      "fst ?B" "snd ?B"]
  have h1: "?R = (fst ?R, snd ?R) \<and> list_all succeeded (fst ?R) \<and>
    list_all node_ok (since ?S (snd ?R))"
    by (intro conjI run ok node)
  have h2: "?B = (fst ?B, snd ?B) \<and> succeeded (fst ?B)"
    by (intro conjI re suc)
  note a = mp[OF conjunct1[OF t] h1]
  note b = mp[OF conjunct2[OF t] h2]
  from conjunct1[OF a] five have eight: "Sequence (txf (snd ?R)) = 8" by simp
  from mp[OF conjunct2[OF a] small] five
  have nat8: "unat (Sequence (txf (snd ?R))) = 5 + 3" by simp
  from b five have six: "Sequence (txf (snd ?B)) = 6" by simp
  from ok node five eight nat8 suc six show ?thesis by (intro conjI)
qed

subsection \<open>The earlier revision\<close>

text \<open>
  The claims that name \<^verbatim>\<open>src/unnamed/part_000\<close> as well, on its model.
  \<open>BroadcastMsg0\<close> is \<open>Broadcast0\<close> on the singleton list (C10).
\<close>

lemma BroadcastMsg0_singleton:
  "BroadcastMsg0 env msg memo s = Broadcast0 env [msg] memo s"
  by (simp add: BroadcastMsg0_def)

lemma emit0_simps [simp]:
  "trace0 (emit0 e s) = trace0 s @ [e]" "seq0 (emit0 e s) = seq0 s" "num0 (emit0 e s) = num0 s"
  by (simp_all add: emit0_def)

lemma sends0_simps [simp]:
  "sends0 [] = []" "sends0 (e # tr) = send_reply0 e @ sends0 tr"
  "sends0 (tr @ tr') = sends0 tr @ sends0 tr'"
  by (simp_all add: sends0_def)

text \<open>
  One call of \<open>broadcast0\<close>: a response with code 0 increments the sequence by 1 and is
  returned; every other outcome is an error with the sequence unchanged. The
  mempool-cache code gives the sentinel, a failing stage its own description. There is
  one submission at most.
\<close>

lemma broadcast0_outcomes:
  assumes "broadcast0 env msgs memo s = (out, s')"
  shows "num0 s' = num0 s \<and> length (sends0 (since0 s s')) \<le> 1 \<and>
    (case out of
       Inr resp \<Rightarrow> seq0 s' = seq0 s + 1 \<and> Code resp = 0 \<and> sends0 (since0 s s') = [Inr resp]
     | Inl e \<Rightarrow> seq0 s' = seq0 s \<and>
         (\<forall>resp. sends0 (since0 s s') = [Inr resp] \<longrightarrow> Code resp \<noteq> 0 \<and>
            e = (if MempoolCacheCode0 env = Code resp then ErrTxInMempoolCache
                 else if UnauthorizedCode0 env = Code resp then ErrInvalidSequence
                 else Errorf ''failed to broadcast tx'' (TxResponse_String0 env resp))) \<and>
         (\<forall>err. sends0 (since0 s s') = [Inl err] \<longrightarrow>
            (\<exists>t. err = Ext t) \<and> e = Wrapf ''failed to broadcast tx'' err) \<and>
         (sends0 (since0 s s') = [] \<longrightarrow>
            (\<exists>t. e = Wrapf ''failed to prepare builder'' (Ext t) \<or>
                 e = Wrapf ''failed to calculate gas'' (Ext t) \<or>
                 e = Wrapf ''failed to build and sign tx'' (Ext t))))"
  using assms
  by (auto simp: broadcast0_def prepareTxBuilder_def enrichWithGas_def buildAndSign_def
      broadcastTx0_def since0_def ext_def Let_def split: prod.splits sum.splits if_splits)

lemma refreshSequence0_resync:
  assumes "GetAccountNumberSequence0 env (node0 s) (FromAddress (ctx0 s)) = ((num, seq, err), w)"
  shows "fst (refreshSequence0 env s) = map_option Ext err \<and>
         num0 (snd (refreshSequence0 env s)) = num \<and> seq0 (snd (refreshSequence0 env s)) = seq"
  using assms by (simp add: refreshSequence0_def)


lemma broadcast0_trace:
  assumes "broadcast0 env msgs memo s = (out, s')"
  shows "\<exists>tr. trace0 s' = trace0 s @ tr"
  using assms
  by (auto simp: broadcast0_def prepareTxBuilder_def enrichWithGas_def buildAndSign_def
      broadcastTx0_def ext_def Let_def split: prod.splits sum.splits if_splits)

lemma refreshSequence0_trace: "trace0 (snd (refreshSequence0 env s)) = trace0 s @ [EvGetAccountNumberSequence0]"
  by (simp add: refreshSequence0_def Let_def split: prod.splits)

lemma since0_append: "trace0 s' = trace0 s @ tr \<Longrightarrow> since0 s s' = tr"
  by (simp add: since0_def)

text \<open>
  The mempool-cache code of the earlier revision: the sentinel, no refresh, no second
  submission, sequence unchanged.
\<close>

lemma Broadcast0_mempool:
  assumes b: "broadcast0 env msgs memo s = (out, s')"
    and r: "sends0 (since0 s s') = [Inr resp]" "Code resp \<noteq> 0" "Code resp = MempoolCacheCode0 env"
  shows "out = Inl ErrTxInMempoolCache \<and> seq0 s' = seq0 s \<and>
         Broadcast0 env msgs memo s = (Inl (Wrapf ''failed to broadcast'' ErrTxInMempoolCache), s')"
proof -
  from broadcast0_outcomes[OF b] r have o: "out = Inl ErrTxInMempoolCache" "seq0 s' = seq0 s"
    by (auto split: sum.splits)
  with b show ?thesis by (simp add: Broadcast0_def)
qed

text \<open>
  The same for a whole call of the earlier revision, whichever of its two attempts gets
  the code: the wrapped sentinel is returned and that submission is the last; when it is
  the only one, the sequence is unchanged, and after a refresh the sequence is what the
  node reported.
\<close>

lemma Broadcast0_mempool_call:
  assumes run: "Broadcast0 env msgs memo s = (out, s')"
    and dup: "Inr resp \<in> set (sends0 (since0 s s'))" "Code resp \<noteq> 0"
      "Code resp = MempoolCacheCode0 env"
  shows "out = Inl (Wrapf ''failed to broadcast'' ErrTxInMempoolCache) \<and>
         last (sends0 (since0 s s')) = Inr resp \<and>
         (sends0 (since0 s s') = [Inr resp] \<longrightarrow> seq0 s' = seq0 s)"
proof -
  obtain r1 s1 where b1: "broadcast0 env msgs memo s = (r1, s1)"
    by (cases "broadcast0 env msgs memo s")
  from broadcast0_trace[OF b1] obtain tr1 where tr1: "trace0 s1 = trace0 s @ tr1" by blast
  note o1 = broadcast0_outcomes[OF b1, unfolded since0_append[OF tr1]]
  from o1 have len1: "length (sends0 tr1) \<le> 1" by simp
  have one: "out1 = Inl ErrTxInMempoolCache \<and> seq0 t' = seq0 t \<and> sends0 tr = [Inr resp]"
    if b: "broadcast0 env msgs memo t = (out1, t')" and tr: "trace0 t' = trace0 t @ tr"
      and d: "Inr resp \<in> set (sends0 tr)" for t t' out1 tr
  proof -
    note o = broadcast0_outcomes[OF b, unfolded since0_append[OF tr]]
    from o have "length (sends0 tr) \<le> 1" by simp
    with d have s: "sends0 tr = [Inr resp]" by (cases "sends0 tr") auto
    with o dup(2,3) show ?thesis by (cases out1) auto
  qed
  show ?thesis
  proof (cases "Inr resp \<in> set (sends0 tr1)")
    case True
    from one[OF b1 tr1 True] have r1: "r1 = Inl ErrTxInMempoolCache" "seq0 s1 = seq0 s"
      "sends0 tr1 = [Inr resp]" by simp_all
    with b1 run have "out = Inl (Wrapf ''failed to broadcast'' ErrTxInMempoolCache)" "s' = s1"
      by (simp_all add: Broadcast0_def)
    with r1 since0_append[OF tr1] show ?thesis by simp
  next
    case False
    have ne: "s' \<noteq> s1"
    proof
      assume "s' = s1"
      with dup(1) since0_append[OF tr1] False show False by simp
    qed
    from b1 run ne obtain e where e: "r1 = Inl e" "errors_Is e ErrInvalidSequence"
      by (cases r1) (auto simp: Broadcast0_def split: if_splits)
    obtain e2 s2 where rf: "refreshSequence0 env s1 = (e2, s2)"
      by (cases "refreshSequence0 env s1")
    then have tr2: "trace0 s2 = trace0 s1 @ [EvGetAccountNumberSequence0]"
      using refreshSequence0_trace[of env s1] by simp
    show ?thesis
    proof (cases e2)
      case (Some err')
      with e b1 rf run have "s' = s2" by (simp add: Broadcast0_def)
      with tr1 tr2 have "since0 s s' = tr1 @ [EvGetAccountNumberSequence0]"
        by (intro since0_append) simp
      with dup(1) False show ?thesis by simp
    next
      case None
      obtain r3 s3 where b3: "broadcast0 env msgs memo s2 = (r3, s3)"
        by (cases "broadcast0 env msgs memo s2")
      from broadcast0_trace[OF b3] obtain tr3 where tr3: "trace0 s3 = trace0 s2 @ tr3" by blast
      from None e b1 rf b3 run have s: "s' = s3"
        and o: "out = (case r3 of Inl err' \<Rightarrow> Inl (Wrapf ''failed to broadcast'' err') | Inr x \<Rightarrow> Inr x)"
        by (auto simp: Broadcast0_def split: sum.splits)
      from s tr1 tr2 tr3 have sn: "since0 s s' = tr1 @ [EvGetAccountNumberSequence0] @ tr3"
        by (intro since0_append) simp
      with dup(1) False have d3: "Inr resp \<in> set (sends0 tr3)" by simp
      from one[OF b3 tr3 d3] have r3: "r3 = Inl ErrTxInMempoolCache" "sends0 tr3 = [Inr resp]"
        by simp_all
      have "sends0 tr1 \<noteq> []"
      proof
        assume "sends0 tr1 = []"
        with o1 e show False by auto
      qed
      with sn r3 o show ?thesis by (cases "sends0 tr1") simp_all
    qed
  qed
qed

text \<open>
  A failing stage of the earlier revision: the error wrapped with the stage, no refresh,
  no second attempt, sequence unchanged.
\<close>

lemma broadcast0_stages:
  "(PrepareTxBuilder env (node0 s)
      (NewTxBuilder (num0 s) (seq0 s) (gas0 s) (gasAdj0 s) False (chainID0 s) memo (fees0 s))
      (ctx0 s) = (Inl t, w1) \<longrightarrow>
      fst (broadcast0 env msgs memo s) = Inl (Wrapf ''failed to prepare builder'' (Ext t))) \<and>
   (PrepareTxBuilder env (node0 s)
      (NewTxBuilder (num0 s) (seq0 s) (gas0 s) (gasAdj0 s) False (chainID0 s) memo (fees0 s))
      (ctx0 s) = (Inr b1, w1) \<and>
    EnrichWithGas env w1 b1 (ctx0 s) msgs = (Inr b2, w2) \<and>
    BuildAndSign env w2 b2 (FromName (ctx0 s)) (genesisKeyPass0 s) msgs = (Inl t, w3) \<longrightarrow>
      fst (broadcast0 env msgs memo s) = Inl (Wrapf ''failed to build and sign tx'' (Ext t))) \<and>
   (PrepareTxBuilder env (node0 s)
      (NewTxBuilder (num0 s) (seq0 s) (gas0 s) (gasAdj0 s) False (chainID0 s) memo (fees0 s))
      (ctx0 s) = (Inr b1, w1) \<and>
    EnrichWithGas env w1 b1 (ctx0 s) msgs = (Inr b2, w2) \<and>
    BuildAndSign env w2 b2 (FromName (ctx0 s)) (genesisKeyPass0 s) msgs = (Inr txBytes, w3) \<and>
    BroadcastTx0 env w3 txBytes = (Inl t, w4) \<longrightarrow>
      fst (broadcast0 env msgs memo s) = Inl (Wrapf ''failed to broadcast tx'' (Ext t)))"
  by (simp add: broadcast0_def prepareTxBuilder_def enrichWithGas_def buildAndSign_def
      broadcastTx0_def ext_def emit0_def Let_def)

lemma Broadcast0_stage_failure:
  assumes b: "broadcast0 env msgs memo s = (Inl (Wrapf stage (Ext t)), s')"
  shows "seq0 s' = seq0 s \<and> length (sends0 (since0 s s')) \<le> 1 \<and>
         Broadcast0 env msgs memo s =
           (Inl (Wrapf ''failed to broadcast'' (Wrapf stage (Ext t))), s')"
  using broadcast0_outcomes[OF b] b by (simp add: Broadcast0_def)

text \<open>Successful calls of the earlier revision under replies with code 0.\<close>

lemma Broadcast0_step:
  assumes "Broadcast0 env msgs memo s = (out, s')"
  shows "\<exists>tr. trace0 s' = trace0 s @ tr \<and>
           (list_all reply_ok (sends0 tr) \<longrightarrow> succeeded out \<longrightarrow> seq0 s' = seq0 s + 1)"
proof -
  obtain r1 s1 where b1: "broadcast0 env msgs memo s = (r1, s1)"
    by (cases "broadcast0 env msgs memo s")
  from broadcast0_trace[OF b1] obtain tr1 where tr1: "trace0 s1 = trace0 s @ tr1" by blast
  note o1 = broadcast0_outcomes[OF b1, unfolded since0_append[OF tr1]]
  show ?thesis
  proof (cases r1)
    case (Inr resp)
    with b1 assms have "out = Inr resp" "s' = s1" by (simp_all add: Broadcast0_def)
    with o1 Inr tr1 show ?thesis by auto
  next
    case (Inl e)
    show ?thesis
    proof (cases "errors_Is e ErrInvalidSequence")
      case False
      with Inl b1 assms have "out = Inl (Wrapf ''failed to broadcast'' e)" "s' = s1"
        by (simp_all add: Broadcast0_def)
      with tr1 show ?thesis by (auto simp: succeeded_def)
    next
      case True
      have nok: "\<not> list_all reply_ok (sends0 tr1)"
      proof -
        from o1 Inl have len: "length (sends0 tr1) \<le> 1"
          and a: "\<And>resp. sends0 tr1 = [Inr resp] \<Longrightarrow> Code resp \<noteq> 0"
          and c: "\<And>err. sends0 tr1 = [Inl err] \<Longrightarrow>
                (\<exists>t. err = Ext t) \<and> e = Wrapf ''failed to broadcast tx'' err"
          and d: "sends0 tr1 = [] \<Longrightarrow>
            (\<exists>t. e = Wrapf ''failed to prepare builder'' (Ext t) \<or>
                 e = Wrapf ''failed to calculate gas'' (Ext t) \<or>
                 e = Wrapf ''failed to build and sign tx'' (Ext t))"
          by auto
        show ?thesis
        proof (cases "sends0 tr1")
          case Nil
          with d True show ?thesis by auto
        next
          case (Cons r rs)
          with len have rs: "sends0 tr1 = [r]" by simp
          show ?thesis
          proof (cases r)
            case (Inl err)
            with rs show ?thesis by (simp add: reply_ok_def)
          next
            case (Inr resp)
            with rs a show ?thesis by (simp add: reply_ok_def)
          qed
        qed
      qed
      obtain e2 s2 where rf: "refreshSequence0 env s1 = (e2, s2)"
        by (cases "refreshSequence0 env s1")
      then have tr2: "trace0 s2 = trace0 s1 @ [EvGetAccountNumberSequence0]"
        using refreshSequence0_trace[of env s1] by simp
      show ?thesis
      proof (cases e2)
        case (Some err')
        with Inl True b1 rf assms have "s' = s2" by (simp add: Broadcast0_def)
        with tr1 tr2 nok show ?thesis
          by (intro exI[of _ "tr1 @ [EvGetAccountNumberSequence0]"]) simp
      next
        case None
        obtain r3 s3 where b3: "broadcast0 env msgs memo s2 = (r3, s3)"
          by (cases "broadcast0 env msgs memo s2")
        from broadcast0_trace[OF b3] obtain tr3 where tr3: "trace0 s3 = trace0 s2 @ tr3" by blast
        from None Inl True b1 rf b3 assms have "s' = s3"
          by (auto simp: Broadcast0_def split: sum.splits)
        with tr1 tr2 tr3 nok show ?thesis
          by (intro exI[of _ "tr1 @ [EvGetAccountNumberSequence0] @ tr3"]) simp
      qed
    qed
  qed
qed

lemma Broadcast0_seq_advance:
  "Broadcast0_seq env calls s = (outs, s') \<Longrightarrow>
   \<exists>tr. trace0 s' = trace0 s @ tr \<and>
     (list_all reply_ok (sends0 tr) \<longrightarrow> list_all succeeded outs \<longrightarrow>
        seq0 s' = seq0 s + of_nat (length calls))"
proof (induction calls arbitrary: s outs s')
  case Nil
  then show ?case by simp
next
  case (Cons c calls)
  obtain msgs memo where c: "c = (msgs, memo)" by (cases c)
  obtain out s1 where b: "Broadcast0 env msgs memo s = (out, s1)"
    by (cases "Broadcast0 env msgs memo s")
  obtain outs' s2 where r: "Broadcast0_seq env calls s1 = (outs', s2)"
    by (cases "Broadcast0_seq env calls s1")
  from Cons.prems c b r have e: "outs = out # outs'" "s' = s2" by simp_all
  from Broadcast0_step[OF b] obtain tr1 where
    tr1: "trace0 s1 = trace0 s @ tr1"
    "list_all reply_ok (sends0 tr1) \<longrightarrow> succeeded out \<longrightarrow> seq0 s1 = seq0 s + 1"
    by blast
  from Cons.IH[OF r] obtain tr2 where
    tr2: "trace0 s2 = trace0 s1 @ tr2"
    "list_all reply_ok (sends0 tr2) \<longrightarrow> list_all succeeded outs' \<longrightarrow>
        seq0 s2 = seq0 s1 + of_nat (length calls)"
    by blast
  have "trace0 s' = trace0 s @ tr1 @ tr2" using e tr1 tr2 by simp
  moreover have "seq0 s' = seq0 s + of_nat (length (c # calls))"
    if "list_all reply_ok (sends0 (tr1 @ tr2))" "list_all succeeded outs"
    using that e tr1(2) tr2(2) by simp
  ultimately show ?case by blast
qed

text \<open>
  C1 on the earlier revision, as stated there: after calls that all succeed, with every
  submission answered by a response with code 0, the sequence has grown by the number of
  calls.
\<close>

lemma Broadcast0_successes_advance_sequence:
  assumes "Broadcast0_seq env calls s = (outs, s')" "list_all succeeded outs"
    "list_all reply_ok (sends0 (since0 s s'))"
  shows "seq0 s' = seq0 s + of_nat (length calls)"
proof -
  from Broadcast0_seq_advance[OF assms(1)] obtain tr where
    tr: "trace0 s' = trace0 s @ tr"
    "list_all reply_ok (sends0 tr) \<longrightarrow> list_all succeeded outs \<longrightarrow>
        seq0 s' = seq0 s + of_nat (length calls)"
    by blast
  with assms(2,3) since0_append[OF tr(1)] show ?thesis by simp
qed

end
